theory Spec2Isabelle
  imports Main "HOL-Library.Multiset" "HOL-Library.Word"
    "HOL-Library.Char_ord" "HOL-Library.List_Lexorder"
begin

unbundle bit_operations_syntax

section \<open>JavaScript strings and arrays\<close>

text \<open>
  Strings of the scripts are modelled as \<open>string\<close>, one \<open>char\<close> per character, with
  the ASCII range as the alphabet: category names, rule types, attribute keys and filter
  tags of the data are ASCII. \<open>toLowerCase\<close> folds \<open>A\<close>..\<open>Z\<close>, \<open>trim\<close> strips the
  ASCII white space of \<open>String.prototype.trim\<close> (TAB, LF, VT, FF, CR, SP) at both ends.
\<close>

definition toLowerCase_char :: "char \<Rightarrow> char" where
  "toLowerCase_char c =
     (if 65 \<le> (of_char c :: nat) \<and> (of_char c :: nat) \<le> 90
      then char_of ((of_char c :: nat) + 32) else c)"

definition toLowerCase :: "string \<Rightarrow> string" where
  "toLowerCase s = map toLowerCase_char s"

definition is_space :: "char \<Rightarrow> bool" where
  "is_space c = ((of_char c :: nat) \<in> {9, 10, 11, 12, 13, 32})"

definition trim :: "string \<Rightarrow> string" where
  "trim s = rev (dropWhile is_space (rev (dropWhile is_space s)))"

text \<open>\<open>s.startsWith("!")\<close> and \<open>s.slice(1)\<close>.\<close>

definition startsWith_bang :: "string \<Rightarrow> bool" where
  "startsWith_bang s = (case s of [] \<Rightarrow> False | c # _ \<Rightarrow> c = CHR ''!'')"

definition slice1 :: "string \<Rightarrow> string" where
  "slice1 s = drop 1 s"

section \<open>build-srs.mjs: the domain-side filter and aggregator\<close>

text \<open>A rule of a category document \<open>{type, value, attrs}\<close>.\<close>

record rule =
  rule_type :: string
  rule_value :: string
  attrs :: "string list"

text \<open>The four buckets \<open>agg\<close> of \<open>toHeadlessRule\<close>.\<close>

record agg =
  domain :: "string list"
  domain_suffix :: "string list"
  domain_keyword :: "string list"
  domain_regex :: "string list"

definition empty_agg :: agg where
  "empty_agg = \<lparr>domain = [], domain_suffix = [], domain_keyword = [], domain_regex = []\<rparr>"

text \<open>\<open>const target = filter?.toLowerCase() || null\<close>: an empty string is falsy.\<close>

definition filter_target :: "string option \<Rightarrow> string option" where
  "filter_target flt =
     (case flt of None \<Rightarrow> None
      | Some f \<Rightarrow> (if toLowerCase f = [] then None else Some (toLowerCase f)))"

text \<open>\<open>const neg = target?.startsWith("!") ? true : false\<close>.\<close>

definition filter_neg :: "string option \<Rightarrow> bool" where
  "filter_neg flt = (case filter_target flt of None \<Rightarrow> False | Some t \<Rightarrow> startsWith_bang t)"

text \<open>\<open>const key = neg ? target?.slice(1) : target\<close>.\<close>

definition filter_key :: "string option \<Rightarrow> string option" where
  "filter_key flt =
     (if filter_neg flt then map_option slice1 (filter_target flt) else filter_target flt)"

text \<open>\<open>attrs.includes(key)\<close> on the lower-cased attributes of the rule.\<close>

definition has_key :: "string \<Rightarrow> rule \<Rightarrow> bool" where
  "has_key k r = (k \<in> set (map toLowerCase (attrs r)))"

text \<open>
  The guard of the loop body: \<open>if (key) { ...; if ((!neg && !has) || (neg && has)) continue; }\<close>.
  A key that is \<open>null\<close> or the empty string is falsy and nothing is skipped.
\<close>

definition skips :: "bool \<Rightarrow> string option \<Rightarrow> rule \<Rightarrow> bool" where
  "skips neg key r =
     (case key of None \<Rightarrow> False
      | Some k \<Rightarrow> if k = [] then False
                 else (\<not> neg \<and> \<not> has_key k r) \<or> (neg \<and> has_key k r))"

text \<open>The \<open>switch (r.type)\<close>: a type outside the four cases is pushed nowhere.\<close>

definition push_rule :: "agg \<Rightarrow> rule \<Rightarrow> agg" where
  "push_rule a r =
     (if rule_type r = ''full'' then a\<lparr>domain := domain a @ [rule_value r]\<rparr>
      else if rule_type r = ''domain'' then a\<lparr>domain_suffix := domain_suffix a @ [rule_value r]\<rparr>
      else if rule_type r = ''keyword'' then a\<lparr>domain_keyword := domain_keyword a @ [rule_value r]\<rparr>
      else if rule_type r = ''regexp'' then a\<lparr>domain_regex := domain_regex a @ [rule_value r]\<rparr>
      else a)"

definition agg_step :: "bool \<Rightarrow> string option \<Rightarrow> agg \<Rightarrow> rule \<Rightarrow> agg" where
  "agg_step neg key a r = (if skips neg key r then a else push_rule a r)"

text \<open>The object \<open>headless\<close>: the non-empty buckets, in the order of \<open>Object.entries(agg)\<close>.\<close>

definition headless :: "agg \<Rightarrow> (string \<times> string list) list" where
  "headless a =
     filter (\<lambda>(k, v). v \<noteq> [])
       [(''domain'', domain a), (''domain_suffix'', domain_suffix a),
        (''domain_keyword'', domain_keyword a), (''domain_regex'', domain_regex a)]"

definition toHeadlessRule :: "rule list \<Rightarrow> string option \<Rightarrow> (string \<times> string list) list" where
  "toHeadlessRule rules flt =
     headless (foldl (agg_step (filter_neg flt) (filter_key flt)) empty_agg rules)"

text \<open>The rules for which the loop body reaches the \<open>switch\<close>, in order.\<close>

definition passed :: "rule list \<Rightarrow> string option \<Rightarrow> rule list" where
  "passed rules flt = filter (\<lambda>r. \<not> skips (filter_neg flt) (filter_key flt) r) rules"

section \<open>Sorting with a comparator\<close>

text \<open>
  \<open>String.prototype.localeCompare\<close> with locale \<open>en\<close> is the collation of the platform
  and is not part of the repository: every function that sorts takes it as a parameter
  \<open>lc\<close>, a function from two strings to a negative, zero or positive integer.

  \<open>Array.prototype.sort\<close> is stable: elements for which the comparator returns 0 keep
  their order. \<open>sort_js\<close> is the stable sort by insertion from the right end: an element
  goes in front of the first element of the sorted rest that it does not exceed.
\<close>

fun insert_by :: "('a \<Rightarrow> 'a \<Rightarrow> int) \<Rightarrow> 'a \<Rightarrow> 'a list \<Rightarrow> 'a list" where
  "insert_by cmp x [] = [x]"
| "insert_by cmp x (y # ys) = (if cmp x y \<le> 0 then x # y # ys else y # insert_by cmp x ys)"

definition sort_js :: "('a \<Rightarrow> 'a \<Rightarrow> int) \<Rightarrow> 'a list \<Rightarrow> 'a list" where
  "sort_js cmp xs = foldr (insert_by cmp) xs []"

text \<open>
  A collation to evaluate examples with: the lexicographic order of the lower-cased
  strings. It stands for the platform's collation only where an example needs one.
\<close>

definition sample_compare :: "string \<Rightarrow> string \<Rightarrow> int" where
  "sample_compare a b =
     (if toLowerCase a < toLowerCase b then - 1
      else if toLowerCase a = toLowerCase b then 0 else 1)"

section \<open>build-geosite-json.mjs: the rule normalizer and the category writer\<close>

text \<open>
  The decoded messages, as \<open>toObject\<close> returns them: a field that is not set is absent
  from the object (\<open>None\<close>). The \<open>oneof typed_value\<close> of an attribute holds
  \<open>bool_value\<close>, \<open>int_value\<close> (a decimal string, by \<open>longs: String\<close>) or nothing.
\<close>

datatype typed_value = Bool_value bool | Int_value string | No_value

record attribute =
  attr_key :: "string option"
  attr_typed_value :: typed_value

record domain_msg =
  domain_type :: "string option"
  domain_value :: "string option"
  domain_attribute :: "attribute list option"

record geosite =
  country_code :: "string option"
  domain_list :: "domain_msg list option"

definition domainTypeToRuleType :: "string option \<Rightarrow> string" where
  "domainTypeToRuleType t =
     (if t = Some ''Domain'' then ''domain''
      else if t = Some ''Full'' then ''full''
      else if t = Some ''Plain'' then ''keyword''
      else if t = Some ''Regex'' then ''regexp''
      else ''domain'')"

text \<open>One turn of the loop of \<open>extractAttrs\<close>, \<open>attrs\<close> being the array built so far.\<close>

definition extractAttrs_step :: "string list \<Rightarrow> attribute \<Rightarrow> string list" where
  "extractAttrs_step acc a =
     (case attr_key a of
        None \<Rightarrow> acc
      | Some k \<Rightarrow>
          (case attr_typed_value a of
             Bool_value b \<Rightarrow> (if b then acc @ [k] else acc)
           | Int_value v \<Rightarrow> acc @ [k @ ''='' @ v]
           | No_value \<Rightarrow> acc @ [k]))"

definition extractAttrs :: "attribute list option \<Rightarrow> string list" where
  "extractAttrs attrList =
     (case attrList of None \<Rightarrow> [] | Some as \<Rightarrow> foldl extractAttrs_step [] as)"

text \<open>\<open>x || ""\<close> on a string field that may be absent.\<close>

definition or_empty :: "string option \<Rightarrow> string" where
  "or_empty x = (case x of None \<Rightarrow> [] | Some v \<Rightarrow> v)"

text \<open>The four rule types that \<open>domainTypeToRuleType\<close> returns.\<close>

definition rule_types :: "string set" where
  "rule_types = {''domain'', ''full'', ''keyword'', ''regexp''}"

text \<open>The object built by the \<open>map\<close> callback of \<open>main\<close>.\<close>

definition to_rule :: "(string \<Rightarrow> string \<Rightarrow> int) \<Rightarrow> domain_msg \<Rightarrow> rule" where
  "to_rule lc d =
     \<lparr>rule_type = domainTypeToRuleType (domain_type d),
      rule_value = trim (or_empty (domain_value d)),
      attrs = sort_js lc (extractAttrs (domain_attribute d))\<rparr>"

text \<open>The comparator of the rule sort.\<close>

definition rule_compare :: "(string \<Rightarrow> string \<Rightarrow> int) \<Rightarrow> rule \<Rightarrow> rule \<Rightarrow> int" where
  "rule_compare lc a b =
     (if rule_type a = rule_type b then lc (rule_value a) (rule_value b)
      else lc (rule_type a) (rule_type b))"

definition normalize_rules :: "(string \<Rightarrow> string \<Rightarrow> int) \<Rightarrow> domain_msg list \<Rightarrow> rule list" where
  "normalize_rules lc domains = sort_js (rule_compare lc) (map (to_rule lc) domains)"

record category =
  cat_name :: string
  cat_rules :: "rule list"

text \<open>One turn of \<open>for (const site of entries)\<close>: an entry without a name is skipped.\<close>

definition collect_step :: "(string \<Rightarrow> string \<Rightarrow> int) \<Rightarrow> category list \<Rightarrow> geosite \<Rightarrow> category list" where
  "collect_step lc categories site =
     (let name = trim (or_empty (country_code site)) in
      if name = [] then categories
      else categories @
        [\<lparr>cat_name = name,
          cat_rules = normalize_rules lc (case domain_list site of None \<Rightarrow> [] | Some ds \<Rightarrow> ds)\<rparr>])"

text \<open>
  What \<open>main\<close> writes: the per-category documents with their file names, in the order
  written; the assignments \<open>indexMapSorted[name] = url\<close> in the order made; the lines of
  the table.
\<close>

record geosite_output =
  category_files :: "(string \<times> category) list"
  index_json :: "(string \<times> string) list"
  table_lines :: "string list"

definition geosite_url :: "string \<Rightarrow> string" where
  "geosite_url name = ''https://direct.sleepstars.de/geosite/'' @ name"

definition geosite_main :: "(string \<Rightarrow> string \<Rightarrow> int) \<Rightarrow> geosite list \<Rightarrow> geosite_output" where
  "geosite_main lc entries =
     (let categories =
            sort_js (\<lambda>a b. lc (cat_name a) (cat_name b)) (foldl (collect_step lc) [] entries)
      in \<lparr>category_files = map (\<lambda>c. (cat_name c @ ''.json'', c)) categories,
          index_json = map (\<lambda>c. (cat_name c, geosite_url (cat_name c))) categories,
          table_lines = [''| Name | Link |'', ''|------|------|''] @
            map (\<lambda>c. ''| '' @ cat_name c @ '' | '' @ geosite_url (cat_name c) @ '' |'') categories\<rparr>)"

section \<open>build-geoip-json.mjs: the address normalizer\<close>

text \<open>
  \<open>Number.prototype.toString(radix)\<close> on a non-negative integer; the scripts use it
  with radix 10 (template strings) and 16 only.
\<close>

definition digit_char :: "nat \<Rightarrow> char" where
  "digit_char d = ''0123456789abcdef'' ! d"

function to_radix :: "nat \<Rightarrow> nat \<Rightarrow> string" where
  "to_radix r n =
     (if r < 2 \<or> n < r then [digit_char n]
      else to_radix r (n div r) @ [digit_char (n mod r)])"
  by pat_completeness auto
termination
  by (relation "measure (\<lambda>(r, n). n)") auto

declare to_radix.simps [simp del]

definition decimal :: "nat \<Rightarrow> string" where
  "decimal n = to_radix 10 n"

definition hex :: "nat \<Rightarrow> string" where
  "hex n = to_radix 16 n"

text \<open>\<open>parts.join(sep)\<close>.\<close>

fun join :: "string \<Rightarrow> string list \<Rightarrow> string" where
  "join sep [] = []"
| "join sep [p] = p"
| "join sep (p # q # ps) = p @ sep @ join sep (q # ps)"

text \<open>A decoded \<open>CIDR\<close> message: the bytes of \<open>ip\<close> (none when absent) and the prefix.\<close>

record cidr =
  cidr_ip :: "8 word list"
  cidr_prefix :: nat

record geoip =
  geoip_country_code :: "string option"
  cidr_list :: "cidr list option"

definition toIPv4String :: "8 word list \<Rightarrow> string option" where
  "toIPv4String u8 =
     (if length u8 \<noteq> 4 then None
      else Some (decimal (unat (u8 ! 0)) @ ''.'' @ decimal (unat (u8 ! 1)) @ ''.'' @
                 decimal (unat (u8 ! 2)) @ ''.'' @ decimal (unat (u8 ! 3))))"

text \<open>\<open>words.push((u8[i] << 8) | u8[i + 1])\<close> for \<open>i = 0, 2, ..., 14\<close>.\<close>

definition ipv6_words :: "8 word list \<Rightarrow> 16 word list" where
  "ipv6_words u8 =
     map (\<lambda>j. push_bit 8 (ucast (u8 ! (2 * j))) OR ucast (u8 ! (2 * j + 1))) [0 ..< 8]"

text \<open>The variables of the search for the longest run of zero words; \<open>-1\<close> is no start.\<close>

record zero_run =
  bestStart :: int
  bestLen :: nat
  curStart :: int
  curLen :: nat

definition take_best :: "zero_run \<Rightarrow> zero_run" where
  "take_best z =
     (if curLen z > bestLen z then z\<lparr>bestStart := curStart z, bestLen := curLen z\<rparr> else z)"

definition zero_run_step :: "16 word list \<Rightarrow> zero_run \<Rightarrow> nat \<Rightarrow> zero_run" where
  "zero_run_step words z i =
     (if words ! i = 0
      then z\<lparr>curStart := (if curStart z = - 1 then int i else curStart z),
             curLen := curLen z + 1\<rparr>
      else (take_best z)\<lparr>curStart := - 1, curLen := 0\<rparr>)"

text \<open>The whole search, with the two statements that follow the loop.\<close>

definition longest_zero_run :: "16 word list \<Rightarrow> zero_run" where
  "longest_zero_run words =
     (let z = take_best (foldl (zero_run_step words)
                \<lparr>bestStart = - 1, bestLen = 0, curStart = - 1, curLen = 0\<rparr> [0 ..< 8])
      in if bestLen z < 2 then z\<lparr>bestStart := - 1\<rparr> else z)"

text \<open>
  The loop \<open>while (i < 8)\<close> that builds \<open>parts\<close>. At \<open>bestStart\<close> it advances by
  \<open>bestLen\<close>, which nothing in the loop itself keeps above 0: the result is an
  option, \<open>None\<close> for a loop that does not return. \<open>toIPv6String_returns\<close> shows that
  it returns for the values the search hands over.
\<close>

partial_function (option) parts_loop ::
  "16 word list \<Rightarrow> int \<Rightarrow> nat \<Rightarrow> nat \<Rightarrow> string list \<Rightarrow> string list option" where
  "parts_loop words bs bl i parts =
     (if i < 8
      then (if int i = bs
            then parts_loop words bs bl (i + bl)
                   (if i + bl \<ge> 8 then parts @ [[], []] else parts @ [[]])
            else parts_loop words bs bl (i + 1) (parts @ [hex (unat (words ! i))]))
      else Some parts)"

declare parts_loop.simps [code]

text \<open>\<open>.replace(/^:/, "::")\<close> and \<open>.replace(/:$/, "::")\<close>.\<close>

definition replace_leading_colon :: "string \<Rightarrow> string" where
  "replace_leading_colon s =
     (case s of [] \<Rightarrow> [] | c # rest \<Rightarrow> if c = CHR '':'' then ''::'' @ rest else s)"

definition replace_trailing_colon :: "string \<Rightarrow> string" where
  "replace_trailing_colon s =
     (if s \<noteq> [] \<and> last s = CHR '':'' then butlast s @ ''::'' else s)"

text \<open>
  \<open>None\<close> is the \<open>null\<close> that a wrong length returns; for sixteen bytes the result
  is never \<open>None\<close> (\<open>toIPv6String_returns\<close>).
\<close>

definition toIPv6String :: "8 word list \<Rightarrow> string option" where
  "toIPv6String u8 =
     (if length u8 \<noteq> 16 then None
      else (let words = ipv6_words u8; z = longest_zero_run words
            in map_option (\<lambda>parts. replace_trailing_colon (replace_leading_colon (join '':'' parts)))
                 (parts_loop words (bestStart z) (bestLen z) 0 [])))"

text \<open>One turn of \<open>for (const c of cidrs)\<close> on the pair of the arrays \<open>v4\<close> and \<open>v6\<close>.\<close>

definition cidr_step :: "string list \<times> string list \<Rightarrow> cidr \<Rightarrow> string list \<times> string list" where
  "cidr_step acc c =
     (let ip = cidr_ip c; v4 = fst acc; v6 = snd acc in
      if length ip = 4 then
        (case toIPv4String ip of
           None \<Rightarrow> acc
         | Some s \<Rightarrow> if s = [] then acc else (v4 @ [s @ ''/'' @ decimal (cidr_prefix c)], v6))
      else if length ip = 16 then
        (case toIPv6String ip of
           None \<Rightarrow> acc
         | Some s \<Rightarrow> if s = [] then acc else (v4, v6 @ [s @ ''/'' @ decimal (cidr_prefix c)]))
      else acc)"

record geoip_group =
  group_name :: string
  cidr4 :: "string list"
  cidr6 :: "string list"

text \<open>
  The state of \<open>main\<close>: the files written so far (name and document) and \<open>groups\<close>.
  \<open>lcn\<close> is \<open>localeCompare\<close> with \<open>numeric: true\<close>, \<open>lc\<close> with \<open>sensitivity: "base"\<close>.
\<close>

record geoip_state =
  group_files :: "(string \<times> geoip_group) list"
  groups :: "string list"

definition group_step ::
  "(string \<Rightarrow> string \<Rightarrow> int) \<Rightarrow> (string \<Rightarrow> string \<Rightarrow> int) \<Rightarrow> geoip_state \<Rightarrow> geoip \<Rightarrow> geoip_state" where
  "group_step lcn lc st g =
     (let name = trim (or_empty (geoip_country_code g)) in
      if name = [] then st
      else (let vs = foldl cidr_step ([], []) (case cidr_list g of None \<Rightarrow> [] | Some cs \<Rightarrow> cs);
                out = \<lparr>group_name = name, cidr4 = sort_js lcn (fst vs), cidr6 = sort_js lc (snd vs)\<rparr>
            in \<lparr>group_files = group_files st @ [(name @ ''.json'', out)],
                groups = groups st @ [name]\<rparr>))"

record geoip_output =
  geoip_files :: "(string \<times> geoip_group) list"
  geoip_index :: "(string \<times> string) list"

definition geoip_main ::
  "(string \<Rightarrow> string \<Rightarrow> int) \<Rightarrow> (string \<Rightarrow> string \<Rightarrow> int) \<Rightarrow> geoip list \<Rightarrow> geoip_output" where
  "geoip_main lcn lc entries =
     (let st = foldl (group_step lcn lc) \<lparr>group_files = [], groups = []\<rparr> entries
      in \<lparr>geoip_files = group_files st,
          geoip_index = map (\<lambda>name. (name, ''https://direct.sleepstars.de/geoip/'' @ name))
                          (sort_js lc (groups st))\<rparr>)"

section \<open>The rule-set compiler adapters\<close>

text \<open>
  The external compiler is a parameter \<open>ok\<close>: whether \<open>sing-box rule-set compile\<close>
  succeeds for the output path it is given. A run of a script either completes (\<open>main\<close>
  resolves, exit status 0) or is aborted by a thrown error (\<open>main().catch\<close> calls
  \<open>process.exit(1)\<close>); both carry the state reached.
\<close>

datatype 's run = Completed 's | Aborted 's

definition exit_status :: "'s run \<Rightarrow> nat" where
  "exit_status r = (case r of Completed _ \<Rightarrow> 0 | Aborted _ \<Rightarrow> 1)"

definition final_state :: "'s run \<Rightarrow> 's" where
  "final_state r = (case r of Completed s \<Rightarrow> s | Aborted s \<Rightarrow> s)"

text \<open>The suffix \<open>filter ? `@${filter}` : ""\<close> of a file name.\<close>

definition variant_suffix :: "string option \<Rightarrow> string" where
  "variant_suffix flt = (case flt of None \<Rightarrow> [] | Some f \<Rightarrow> if f = [] then [] else ''@'' @ f)"

subsection \<open>build-srs.mjs: \<open>main\<close>\<close>

text \<open>
  The state of the two nested loops: the output paths the compiler has been called
  with, in order, and the counter \<open>total\<close>.
\<close>

record srs_state =
  invoked :: "string list"
  total :: nat

fun srs_filters ::
  "(string \<Rightarrow> bool) \<Rightarrow> string \<Rightarrow> rule list \<Rightarrow> string option list \<Rightarrow> srs_state \<Rightarrow> srs_state run" where
  "srs_filters ok name rules [] st = Completed st"
| "srs_filters ok name rules (flt # flts) st =
     (if toHeadlessRule rules flt = [] then srs_filters ok name rules flts st
      else (let outPath = name @ variant_suffix flt @ ''.srs'';
                st' = st\<lparr>invoked := invoked st @ [outPath]\<rparr>
            in if ok outPath then srs_filters ok name rules flts (st'\<lparr>total := total st' + 1\<rparr>)
               else Aborted st'))"

fun srs_names ::
  "(string \<Rightarrow> bool) \<Rightarrow> (string \<Rightarrow> rule list) \<Rightarrow> string option list \<Rightarrow> string list \<Rightarrow> srs_state
     \<Rightarrow> srs_state run" where
  "srs_names ok readCategory filters [] st = Completed st"
| "srs_names ok readCategory filters (name # names) st =
     (case srs_filters ok name (readCategory name) filters st of
        Aborted st' \<Rightarrow> Aborted st'
      | Completed st' \<Rightarrow> srs_names ok readCategory filters names st')"

definition srs_main ::
  "(string \<Rightarrow> bool) \<Rightarrow> (string \<Rightarrow> rule list) \<Rightarrow> string list \<Rightarrow> string option list \<Rightarrow> srs_state run" where
  "srs_main ok readCategory names filters =
     srs_names ok readCategory filters names \<lparr>invoked = [], total = 0\<rparr>"

text \<open>
  The compilation tasks of a run, categories by variants, in the order of the loops:
  the output paths of the variants whose rule object is not empty.
\<close>

definition srs_tasks :: "(string \<Rightarrow> rule list) \<Rightarrow> string list \<Rightarrow> string option list \<Rightarrow> string list" where
  "srs_tasks readCategory names filters =
     concat (map (\<lambda>name. map (\<lambda>flt. name @ variant_suffix flt @ ''.srs'')
                   (filter (\<lambda>flt. toHeadlessRule (readCategory name) flt \<noteq> []) filters)) names)"

text \<open>
  The compiler called on a list of tasks in order, up to the first failure: what the two
  loops of \<open>main\<close> come to on the tasks of the run.
\<close>

fun compile_in_order :: "(string \<Rightarrow> bool) \<Rightarrow> string list \<Rightarrow> srs_state \<Rightarrow> srs_state run" where
  "compile_in_order ok [] st = Completed st"
| "compile_in_order ok (t # ts) st =
     (if ok t then compile_in_order ok ts \<lparr>invoked = invoked st @ [t], total = total st + 1\<rparr>
      else Aborted \<lparr>invoked = invoked st @ [t], total = total st\<rparr>)"

subsection \<open>build-srs-geoip.mjs: \<open>toHeadlessRule\<close>, \<open>runPool\<close> and \<open>main\<close>\<close>

definition wants :: "string option \<Rightarrow> string \<Rightarrow> string \<Rightarrow> bool" where
  "wants flt short long =
     (case flt of None \<Rightarrow> True
      | Some f \<Rightarrow> f = [] \<or> toLowerCase f = short \<or> toLowerCase f = long)"

definition toHeadlessRule_ip :: "geoip_group \<Rightarrow> string option \<Rightarrow> string list option" where
  "toHeadlessRule_ip data flt =
     (let ip_cidr = (if wants flt ''v4'' ''ipv4'' then cidr4 data else []) @
                    (if wants flt ''v6'' ''ipv6'' then cidr6 data else [])
      in if ip_cidr = [] then None else Some ip_cidr)"

text \<open>
  \<open>runPool\<close>. A task is identified by its output path. The workers share the counter
  \<open>i\<close>; each takes the next index, runs the task inside \<open>try\<close>/\<open>catch\<close> and stores
  the outcome in \<open>results\<close>. JavaScript runs one worker at a time between two
  \<open>await\<close>s, so that the indices are taken in order, each once; the model keeps that
  order and leaves out the order in which the tasks finish. Without a worker
  (\<open>concurrency = 0\<close>) no task is taken.
\<close>

datatype task_result = Fulfilled | Rejected

record pool_state =
  started :: "string list"
  results :: "task_result list"

function pool_worker :: "(string \<Rightarrow> bool) \<Rightarrow> string list \<Rightarrow> nat \<Rightarrow> pool_state \<Rightarrow> pool_state" where
  "pool_worker ok tasks i st =
     (if i \<ge> length tasks then st
      else pool_worker ok tasks (i + 1)
             \<lparr>started = started st @ [tasks ! i],
              results = results st @ [if ok (tasks ! i) then Fulfilled else Rejected]\<rparr>)"
  by pat_completeness auto
termination
  by (relation "measure (\<lambda>(ok, tasks, i, st). length tasks - i)") auto

declare pool_worker.simps [simp del]

definition runPool :: "(string \<Rightarrow> bool) \<Rightarrow> string list \<Rightarrow> nat \<Rightarrow> pool_state" where
  "runPool ok tasks concurrency =
     (if concurrency = 0 then \<lparr>started = [], results = []\<rparr>
      else pool_worker ok tasks 0 \<lparr>started = [], results = []\<rparr>)"

text \<open>The tasks that \<open>main\<close> pushes for one group, and for all groups.\<close>

definition group_tasks :: "string \<Rightarrow> geoip_group \<Rightarrow> string option list \<Rightarrow> string list" where
  "group_tasks name data filters =
     map (\<lambda>flt. name @ variant_suffix flt @ ''.srs'')
       (filter (\<lambda>flt. toHeadlessRule_ip data flt \<noteq> None) filters)"

definition geoip_filters :: "string option list" where
  "geoip_filters = [None, Some ''v4'', Some ''v6'']"

definition geoip_srs_tasks :: "(string \<Rightarrow> geoip_group) \<Rightarrow> string list \<Rightarrow> string list" where
  "geoip_srs_tasks readGroup names =
     concat (map (\<lambda>name. group_tasks name (readGroup name) geoip_filters) names)"

text \<open>
  What \<open>main\<close> leaves: the state of the pool and the number it logs as generated.
  \<open>main\<close> awaits \<open>runPool\<close>, which catches every error of a task, and logs
  \<open>tasks.length\<close>; \<open>concurrency\<close> is \<open>Math.max(1, ...)\<close>.
\<close>

record geoip_srs_state =
  pool :: pool_state
  generated :: nat

definition geoip_srs_main ::
  "(string \<Rightarrow> bool) \<Rightarrow> (string \<Rightarrow> geoip_group) \<Rightarrow> string list \<Rightarrow> nat \<Rightarrow> geoip_srs_state run" where
  "geoip_srs_main ok readGroup names concurrency =
     (if names = [] then Completed \<lparr>pool = \<lparr>started = [], results = []\<rparr>, generated = 0\<rparr>
      else (let tasks = geoip_srs_tasks readGroup names
            in Completed \<lparr>pool = runPool ok tasks (max 1 concurrency),
                          generated = length tasks\<rparr>))"

section \<open>sync-r2.mjs: the publisher\<close>

record item =
  item_file :: string
  item_key :: string
  item_size :: nat
  item_sha256 :: string
  item_contentType :: string

record entry =
  entry_sha256 :: string
  entry_size :: nat

record manifest =
  version :: int
  generatedAt :: nat
  entries :: "string \<rightharpoonup> entry"

text \<open>A remote write: \<open>putObject\<close> of a file, or of the manifest with what it holds.\<close>

datatype put = Put_object string string string | Put_manifest string manifest

definition put_item :: "item \<Rightarrow> put" where
  "put_item it = Put_object (item_key it) (item_file it) (item_contentType it)"

text \<open>\<open>!remote || remote.sha256 !== item.sha256 || remote.size !== item.size\<close>.\<close>

definition is_changed :: "(string \<rightharpoonup> entry) \<Rightarrow> item \<Rightarrow> bool" where
  "is_changed remoteEntries it =
     (case remoteEntries (item_key it) of
        None \<Rightarrow> True
      | Some remote \<Rightarrow> entry_sha256 remote \<noteq> item_sha256 it \<or> entry_size remote \<noteq> item_size it)"

definition changed_step :: "(string \<rightharpoonup> entry) \<Rightarrow> item list \<Rightarrow> item \<Rightarrow> item list" where
  "changed_step remoteEntries changed it =
     (if is_changed remoteEntries it then changed @ [it] else changed)"

definition changed_set :: "(string \<rightharpoonup> entry) \<Rightarrow> item list \<Rightarrow> item list" where
  "changed_set remoteEntries localPlan = foldl (changed_step remoteEntries) [] localPlan"

text \<open>
  The workers of \<open>uploadPlan\<close> share \<open>idx\<close> as those of \<open>runPool\<close> share \<open>i\<close>, but
  rethrow: the first failing \<open>putObject\<close> aborts the run. \<open>puts\<close> are the writes done.
  \<open>ok\<close> tells whether the storage accepts the write of a key.
\<close>

function upload_worker ::
  "bool \<Rightarrow> (string \<Rightarrow> bool) \<Rightarrow> item list \<Rightarrow> nat \<Rightarrow> put list \<Rightarrow> put list run" where
  "upload_worker dry ok changed idx puts =
     (if idx < length changed
      then (if dry then upload_worker dry ok changed (idx + 1) puts
            else if ok (item_key (changed ! idx))
                 then upload_worker dry ok changed (idx + 1) (puts @ [put_item (changed ! idx)])
                 else Aborted puts)
      else Completed puts)"
  by pat_completeness auto
termination
  by (relation "measure (\<lambda>(dry, ok, changed, idx, puts). length changed - idx)") auto

declare upload_worker.simps [simp del]

text \<open>The key and the entry \<open>{ sha256: it.sha256, size: it.size }\<close> of a local item.\<close>

definition local_entry :: "item \<Rightarrow> string \<times> entry" where
  "local_entry it = (item_key it, \<lparr>entry_sha256 = item_sha256 it, entry_size = item_size it\<rparr>)"

definition merge_step :: "(string \<rightharpoonup> entry) \<Rightarrow> item \<Rightarrow> (string \<rightharpoonup> entry)" where
  "merge_step merged it = merged(fst (local_entry it) \<mapsto> snd (local_entry it))"

definition merge_entries :: "(string \<rightharpoonup> entry) \<Rightarrow> item list \<Rightarrow> (string \<rightharpoonup> entry)" where
  "merge_entries remoteEntries localPlan = foldl merge_step remoteEntries localPlan"

text \<open>\<open>remoteManifest?.entries || {}\<close>.\<close>

definition remote_entries :: "manifest option \<Rightarrow> (string \<rightharpoonup> entry)" where
  "remote_entries remoteManifest =
     (case remoteManifest of None \<Rightarrow> Map.empty | Some m \<Rightarrow> entries m)"

text \<open>The outcome of \<open>uploadPlan\<close>: the remote writes in order and the entries returned.\<close>

record upload_state =
  puts :: "put list"
  returned :: "(string \<rightharpoonup> entry) option"

definition uploadPlan ::
  "bool \<Rightarrow> (string \<Rightarrow> bool) \<Rightarrow> nat \<Rightarrow> string \<Rightarrow> item list \<Rightarrow> manifest option \<Rightarrow> upload_state run" where
  "uploadPlan dry ok now manifestKey localPlan remoteManifest =
     (let remoteEntries = remote_entries remoteManifest;
          changed = changed_set remoteEntries localPlan
      in if changed = [] then Completed \<lparr>puts = [], returned = Some remoteEntries\<rparr>
         else (case upload_worker dry ok changed 0 [] of
                 Aborted ps \<Rightarrow> Aborted \<lparr>puts = ps, returned = None\<rparr>
               | Completed ps \<Rightarrow>
                   (let merged = merge_entries remoteEntries localPlan;
                        m = \<lparr>version = 1, generatedAt = now, entries = merged\<rparr>
                    in if dry then Completed \<lparr>puts = ps, returned = Some merged\<rparr>
                       else if ok manifestKey
                            then Completed \<lparr>puts = ps @ [Put_manifest manifestKey m],
                                            returned = Some merged\<rparr>
                            else Aborted \<lparr>puts = ps, returned = None\<rparr>)))"

section \<open>Properties of the domain-side filter\<close>

lemma foldl_agg_step:
  "foldl (agg_step neg key) a rules = foldl push_rule a (filter (\<lambda>r. \<not> skips neg key r) rules)"
  by (induction rules arbitrary: a) (simp_all add: agg_step_def)

lemma skips_key: "k \<noteq> [] \<Longrightarrow> skips neg (Some k) r = (neg = has_key k r)"
  by (auto simp: skips_def)

lemma skips_no_key: "skips neg None r = False" "skips neg (Some []) r = False"
  by (simp_all add: skips_def)

lemma filter_key_cn:
  "filter_key (Some ''cn'') = Some ''cn''" "filter_neg (Some ''cn'') = False"
  "filter_key (Some ''!cn'') = Some ''cn''" "filter_neg (Some ''!cn'') = True"
  "filter_key (Some ''!'') = Some []" "filter_neg (Some ''!'') = True"
  by (simp_all add: filter_key_def filter_neg_def filter_target_def toLowerCase_def
      toLowerCase_char_def startsWith_bang_def slice1_def)

lemma toLowerCase_samples:
  "toLowerCase ''CN'' = ''cn''" "toLowerCase ''ads'' = ''ads''" "toLowerCase ''cn'' = ''cn''"
  by code_simp+

lemma has_key_cn:
  "has_key ''cn'' (r\<lparr>attrs := [''cn'']\<rparr>)" "\<not> has_key ''cn'' (r\<lparr>attrs := []\<rparr>)"
  by (simp_all add: has_key_def toLowerCase_samples)

text \<open>
  C1, as amended. For every rule list and every filter whose key is neither \<open>null\<close> nor
  empty, the rules that reach the buckets are exactly the rules \<open>r\<close> with (not negate and
  \<open>r\<close> has the key) or (negate and \<open>r\<close> lacks the key), in their order, where \<open>r\<close> has
  the key when one of its attributes, lower-cased, is the key; the buckets are filled
  from these rules alone. Of the rules \<open>[{attrs:["cn"]}, {attrs:[]}]\<close> the filter \<open>cn\<close>
  passes the first only and the filter \<open>!cn\<close> the second only.
\<close>

theorem toHeadlessRule_passes_exactly:
  "(filter_key flt = Some k \<and> k \<noteq> [] \<longrightarrow>
      passed rules flt =
        filter (\<lambda>r. (\<not> filter_neg flt \<and> has_key k r) \<or> (filter_neg flt \<and> \<not> has_key k r)) rules)
   \<and> toHeadlessRule rules flt = headless (foldl push_rule empty_agg (passed rules flt))
   \<and> passed [r1\<lparr>attrs := [''cn'']\<rparr>, r2\<lparr>attrs := []\<rparr>] (Some ''cn'') = [r1\<lparr>attrs := [''cn'']\<rparr>]
   \<and> passed [r1\<lparr>attrs := [''cn'']\<rparr>, r2\<lparr>attrs := []\<rparr>] (Some ''!cn'') = [r2\<lparr>attrs := []\<rparr>]"
proof (intro conjI impI)
  assume k: "filter_key flt = Some k \<and> k \<noteq> []"
  then have "\<And>r. skips (filter_neg flt) (filter_key flt) r = (filter_neg flt = has_key k r)"
    by (simp add: skips_key)
  then show "passed rules flt =
      filter (\<lambda>r. (\<not> filter_neg flt \<and> has_key k r) \<or> (filter_neg flt \<and> \<not> has_key k r)) rules"
    unfolding passed_def by (intro filter_cong) auto
next
  show "toHeadlessRule rules flt = headless (foldl push_rule empty_agg (passed rules flt))"
    by (simp add: toHeadlessRule_def passed_def foldl_agg_step)
next
  show "passed [r1\<lparr>attrs := [''cn'']\<rparr>, r2\<lparr>attrs := []\<rparr>] (Some ''cn'') = [r1\<lparr>attrs := [''cn'']\<rparr>]"
    by (simp add: passed_def filter_key_cn skips_key has_key_cn)
next
  show "passed [r1\<lparr>attrs := [''cn'']\<rparr>, r2\<lparr>attrs := []\<rparr>] (Some ''!cn'') = [r2\<lparr>attrs := []\<rparr>]"
    by (simp add: passed_def filter_key_cn skips_key has_key_cn)
qed

theorem toHeadlessRule_passes_exactly_witness:
  "filter_key (Some ''!cn'') = Some ''cn'' \<and> ''cn'' \<noteq> [] \<and>
   passed [\<lparr>rule_type = ''full'', rule_value = ''a.cn'', attrs = [''CN'']\<rparr>,
           \<lparr>rule_type = ''domain'', rule_value = ''b.com'', attrs = [''ads'']\<rparr>] (Some ''!cn'')
     = [\<lparr>rule_type = ''domain'', rule_value = ''b.com'', attrs = [''ads'']\<rparr>] \<and>
   toHeadlessRule [\<lparr>rule_type = ''full'', rule_value = ''a.cn'', attrs = [''CN'']\<rparr>,
           \<lparr>rule_type = ''domain'', rule_value = ''b.com'', attrs = [''ads'']\<rparr>] (Some ''!cn'')
     = [(''domain_suffix'', [''b.com''])]"
  using toHeadlessRule_passes_exactly [of "Some ''!cn''" "''cn''"
      "[\<lparr>rule_type = ''full'', rule_value = ''a.cn'', attrs = [''CN'']\<rparr>,
        \<lparr>rule_type = ''domain'', rule_value = ''b.com'', attrs = [''ads'']\<rparr>]"]
  by (simp add: filter_key_cn has_key_def toLowerCase_samples
      headless_def push_rule_def empty_agg_def)

text \<open>
  C1 as stated fails where the key is the empty string, which is not \<open>null\<close>: the
  filter \<open>!\<close> has negate set and the key \<open>""\<close>, the rule below has the attribute
  \<open>""\<close>, and the rule passes.
\<close>

theorem toHeadlessRule_empty_key_counterexample:
  "filter_key (Some ''!'') = Some [] \<and> filter_neg (Some ''!'') \<and>
   has_key [] \<lparr>rule_type = ''full'', rule_value = ''a.com'', attrs = ['''']\<rparr> \<and>
   passed [\<lparr>rule_type = ''full'', rule_value = ''a.com'', attrs = ['''']\<rparr>] (Some ''!'')
     = [\<lparr>rule_type = ''full'', rule_value = ''a.com'', attrs = ['''']\<rparr>] \<and>
   toHeadlessRule [\<lparr>rule_type = ''full'', rule_value = ''a.com'', attrs = ['''']\<rparr>] (Some ''!'')
     = [(''domain'', [''a.com''])]"
  by (simp add: filter_key_cn has_key_def toLowerCase_def passed_def skips_no_key
      toHeadlessRule_def agg_step_def headless_def push_rule_def empty_agg_def)

text \<open>
  C2, as amended. For every rule \<open>r\<close> and every filter whose key is neither \<open>null\<close> nor
  empty, the filter passes \<open>r\<close> if and only if \<open>negate == (r lacks the key)\<close> is true,
  and drops it if and only if the equation is false.
\<close>

theorem filter_passes_iff_negate_eq_lacks:
  "filter_key flt = Some k \<and> k \<noteq> [] \<longrightarrow>
     (passed [r] flt = [r]) = (filter_neg flt = (\<not> has_key k r)) \<and>
     (passed [r] flt = []) = (filter_neg flt \<noteq> (\<not> has_key k r))"
  by (auto simp: passed_def skips_key)

theorem filter_passes_iff_negate_eq_lacks_witness:
  "filter_key (Some ''!cn'') = Some ''cn'' \<and> ''cn'' \<noteq> [] \<and>
   filter_neg (Some ''!cn'') =
     (\<not> has_key ''cn'' \<lparr>rule_type = ''full'', rule_value = ''a.com'', attrs = []\<rparr>) \<and>
   passed [\<lparr>rule_type = ''full'', rule_value = ''a.com'', attrs = []\<rparr>] (Some ''!cn'')
     = [\<lparr>rule_type = ''full'', rule_value = ''a.com'', attrs = []\<rparr>]"
  using filter_passes_iff_negate_eq_lacks [of "Some ''!cn''" "''cn''"
      "\<lparr>rule_type = ''full'', rule_value = ''a.com'', attrs = []\<rparr>"]
  by (simp add: filter_key_cn has_key_def)

text \<open>
  C2 as stated fails: with the filter \<open>cn\<close> and a rule that has \<open>cn\<close>, the equation
  \<open>negate == (r lacks the key)\<close> is true (both sides are false), and the rule passes.
\<close>

theorem filter_negate_eq_lacks_false_counterexample:
  "filter_key (Some ''cn'') = Some ''cn'' \<and>
   (filter_neg (Some ''cn'') =
     (\<not> has_key ''cn'' \<lparr>rule_type = ''full'', rule_value = ''a.cn'', attrs = [''cn'']\<rparr>)) \<and>
   passed [\<lparr>rule_type = ''full'', rule_value = ''a.cn'', attrs = [''cn'']\<rparr>] (Some ''cn'')
     = [\<lparr>rule_type = ''full'', rule_value = ''a.cn'', attrs = [''cn'']\<rparr>] \<and>
   toHeadlessRule [\<lparr>rule_type = ''full'', rule_value = ''a.cn'', attrs = [''cn'']\<rparr>] (Some ''cn'')
     = [(''domain'', [''a.cn''])]"
  by (simp add: filter_key_cn has_key_def toLowerCase_samples passed_def skips_key
      toHeadlessRule_def agg_step_def headless_def push_rule_def empty_agg_def)

section \<open>Properties of the normalizers\<close>

lemma extractAttrs_step_acc: "extractAttrs_step acc a = acc @ extractAttrs_step [] a"
  by (simp add: extractAttrs_step_def split: option.splits typed_value.splits)

lemma foldl_extractAttrs_step:
  "foldl extractAttrs_step acc as = acc @ foldl extractAttrs_step [] as"
proof (induction as arbitrary: acc)
  case Nil
  show ?case by simp
next
  case (Cons a as)
  have "foldl extractAttrs_step acc (a # as) = extractAttrs_step acc a @ foldl extractAttrs_step [] as"
    using Cons.IH [of "extractAttrs_step acc a"] by simp
  also have "\<dots> = acc @ extractAttrs_step [] a @ foldl extractAttrs_step [] as"
    using extractAttrs_step_acc [of acc a] by simp
  also have "\<dots> = acc @ foldl extractAttrs_step [] (a # as)"
    using Cons.IH [of "extractAttrs_step [] a"] by simp
  finally show ?case .
qed

lemma extractAttrs_append:
  "extractAttrs (Some (xs @ ys)) = extractAttrs (Some xs) @ extractAttrs (Some ys)"
  using foldl_extractAttrs_step [of "foldl extractAttrs_step [] xs" ys]
  by (simp add: extractAttrs_def)

lemma extractAttrs_single:
  "extractAttrs (Some [a]) = extractAttrs_step [] a"
  by (simp add: extractAttrs_def)

lemma extractAttrs_Cons:
  "extractAttrs (Some (a # ys)) = extractAttrs (Some [a]) @ extractAttrs (Some ys)"
  using extractAttrs_append [of "[a]" ys] by simp

text \<open>
  C9. An attribute whose \<open>bool_value\<close> is false contributes nothing to the attributes
  of the rule: the list extracted, and the \<open>attrs\<close> of the rule built from it, are those
  of the attribute list without it, so neither its key nor a \<open>key=value\<close> string comes
  from it. An attribute with a key whose \<open>bool_value\<close> is true contributes that key, at
  its place.
\<close>

theorem extractAttrs_bool_value:
  "extractAttrs (Some (xs @ [\<lparr>attr_key = k, attr_typed_value = Bool_value False\<rparr>] @ ys))
     = extractAttrs (Some (xs @ ys))
   \<and> extractAttrs (Some (xs @ [\<lparr>attr_key = Some key, attr_typed_value = Bool_value True\<rparr>] @ ys))
     = extractAttrs (Some xs) @ [key] @ extractAttrs (Some ys)
   \<and> attrs (to_rule lc (d\<lparr>domain_attribute :=
        Some (xs @ [\<lparr>attr_key = k, attr_typed_value = Bool_value False\<rparr>] @ ys)\<rparr>))
     = attrs (to_rule lc (d\<lparr>domain_attribute := Some (xs @ ys)\<rparr>))
   \<and> extractAttrs (Some [\<lparr>attr_key = Some key, attr_typed_value = Bool_value False\<rparr>]) = []
   \<and> extractAttrs (Some [\<lparr>attr_key = Some key, attr_typed_value = Bool_value True\<rparr>]) = [key]"
proof -
  have f: "extractAttrs (Some [\<lparr>attr_key = k, attr_typed_value = Bool_value False\<rparr>]) = []"
    by (simp add: extractAttrs_single extractAttrs_step_def split: option.splits)
  have t: "extractAttrs (Some [\<lparr>attr_key = Some key, attr_typed_value = Bool_value True\<rparr>]) = [key]"
    by (simp add: extractAttrs_single extractAttrs_step_def)
  have f': "extractAttrs (Some [\<lparr>attr_key = Some key, attr_typed_value = Bool_value False\<rparr>]) = []"
    by (simp add: extractAttrs_single extractAttrs_step_def)
  show ?thesis
    by (simp add: extractAttrs_append
        extractAttrs_Cons [of "\<lparr>attr_key = k, attr_typed_value = Bool_value False\<rparr>" ys]
        extractAttrs_Cons [of "\<lparr>attr_key = Some key, attr_typed_value = Bool_value True\<rparr>" ys]
        f t f' to_rule_def)
qed

lemma foldl_collect_skip:
  "trim (or_empty (country_code e)) = [] \<Longrightarrow>
   foldl (collect_step lc) acc (xs @ e # ys) = foldl (collect_step lc) acc (xs @ ys)"
  by (simp add: collect_step_def)

lemma foldl_group_skip:
  "trim (or_empty (geoip_country_code g)) = [] \<Longrightarrow>
   foldl (group_step lcn lc) acc (gs @ g # hs) = foldl (group_step lcn lc) acc (gs @ hs)"
  by (simp add: group_step_def)

lemma trim_blank: "trim [] = []" "trim '' '' = []" "trim ''cn'' = ''cn''" "trim ''us'' = ''us''"
  by (simp_all add: trim_def is_space_def)

text \<open>
  C10. A top-level entry whose \<open>country_code\<close> is absent, empty or white space only is
  dropped: what \<open>main\<close> writes (the documents, the index, the table) is what it writes
  for the entries without it, in the domain pipeline and in the IP pipeline.
\<close>

theorem nameless_entry_dropped:
  "(trim (or_empty (country_code e)) = [] \<longrightarrow>
      geosite_main lc (xs @ e # ys) = geosite_main lc (xs @ ys))
   \<and> (trim (or_empty (geoip_country_code g)) = [] \<longrightarrow>
      geoip_main lcn lc (gs @ g # hs) = geoip_main lcn lc (gs @ hs))
   \<and> trim (or_empty None) = [] \<and> trim (or_empty (Some [])) = []"
  by (simp add: geosite_main_def geoip_main_def foldl_collect_skip foldl_group_skip
      or_empty_def trim_blank del: foldl_append foldl_Cons)

theorem nameless_entry_dropped_witness:
  "trim (or_empty (country_code \<lparr>country_code = Some '' '', domain_list = None\<rparr>)) = [] \<and>
   geosite_main sample_compare
     ([\<lparr>country_code = Some ''cn'', domain_list = None\<rparr>] @
       \<lparr>country_code = Some '' '', domain_list = None\<rparr> # [])
   = geosite_main sample_compare ([\<lparr>country_code = Some ''cn'', domain_list = None\<rparr>] @ []) \<and>
   trim (or_empty (geoip_country_code \<lparr>geoip_country_code = None, cidr_list = None\<rparr>)) = [] \<and>
   geoip_main sample_compare sample_compare
     ([] @ \<lparr>geoip_country_code = None, cidr_list = None\<rparr> #
       [\<lparr>geoip_country_code = Some ''us'', cidr_list = None\<rparr>])
   = geoip_main sample_compare sample_compare
       ([] @ [\<lparr>geoip_country_code = Some ''us'', cidr_list = None\<rparr>]) \<and>
   category_files (geosite_main sample_compare
     [\<lparr>country_code = Some ''cn'', domain_list = None\<rparr>,
      \<lparr>country_code = Some '' '', domain_list = None\<rparr>])
   = [(''cn.json'', \<lparr>cat_name = ''cn'', cat_rules = []\<rparr>)]"
  using nameless_entry_dropped [where e = "\<lparr>country_code = Some '' '', domain_list = None\<rparr>"
      and lc = sample_compare and xs = "[\<lparr>country_code = Some ''cn'', domain_list = None\<rparr>]"
      and ys = "[]" and g = "\<lparr>geoip_country_code = None, cidr_list = None\<rparr>"
      and lcn = sample_compare and gs = "[]"
      and hs = "[\<lparr>geoip_country_code = Some ''us'', cidr_list = None\<rparr>]"]
  by (simp add: or_empty_def trim_blank geosite_main_def collect_step_def
      normalize_rules_def sort_js_def)

lemma foldl_cidr_skip:
  "length (cidr_ip c) \<noteq> 4 \<Longrightarrow> length (cidr_ip c) \<noteq> 16 \<Longrightarrow>
   foldl cidr_step acc (xs @ c # ys) = foldl cidr_step acc (xs @ ys)"
  by (simp add: cidr_step_def)

text \<open>
  C8. For a CIDR message whose address has neither 4 nor 16 bytes both converters return
  \<open>null\<close>, the turn of the loop leaves \<open>v4\<close> and \<open>v6\<close> as they are, and the loop
  goes on: the lists, and the document of the group, are those of the group without the
  message.
\<close>

theorem unsupported_address_length_skipped:
  "length (cidr_ip c) \<noteq> 4 \<and> length (cidr_ip c) \<noteq> 16 \<longrightarrow>
     toIPv4String (cidr_ip c) = None \<and> toIPv6String (cidr_ip c) = None \<and>
     cidr_step (v4, v6) c = (v4, v6) \<and>
     foldl cidr_step (v4, v6) (xs @ c # ys) = foldl cidr_step (v4, v6) (xs @ ys) \<and>
     group_step lcn lc st (g\<lparr>cidr_list := Some (xs @ c # ys)\<rparr>)
       = group_step lcn lc st (g\<lparr>cidr_list := Some (xs @ ys)\<rparr>)"
  by (simp add: toIPv4String_def toIPv6String_def foldl_cidr_skip group_step_def cidr_step_def
      Let_def del: foldl_append foldl_Cons)

lemma cidr_samples:
  "toIPv4String [10, 0, 0, 0] = Some ''10.0.0.0''"
  "toIPv6String (replicate 15 0 @ [1]) = Some ''::1''"
  "decimal 8 = ''8''" "decimal 128 = ''128''"
  by code_simp+

theorem unsupported_address_length_skipped_witness:
  "length (cidr_ip \<lparr>cidr_ip = [1, 2, 3], cidr_prefix = 24\<rparr>) \<noteq> 4 \<and>
   length (cidr_ip \<lparr>cidr_ip = [1, 2, 3], cidr_prefix = 24\<rparr>) \<noteq> 16 \<and>
   foldl cidr_step ([], [])
     ([\<lparr>cidr_ip = [10, 0, 0, 0], cidr_prefix = 8\<rparr>] @ \<lparr>cidr_ip = [1, 2, 3], cidr_prefix = 24\<rparr> #
      [\<lparr>cidr_ip = replicate 15 0 @ [1], cidr_prefix = 128\<rparr>])
   = ([''10.0.0.0/8''], [''::1/128''])"
  using unsupported_address_length_skipped [of "\<lparr>cidr_ip = [1, 2, 3], cidr_prefix = 24\<rparr>"
      "[]" "[]" "[\<lparr>cidr_ip = [10, 0, 0, 0], cidr_prefix = 8\<rparr>]"
      "[\<lparr>cidr_ip = replicate 15 0 @ [1], cidr_prefix = 128\<rparr>]"]
  by (simp add: cidr_step_def cidr_samples)

section \<open>Properties of the IPv6 text\<close>

lemma longest_zero_run_start: "bestStart (longest_zero_run words) = - 1 \<or> 2 \<le> bestLen (longest_zero_run words)"
  by (simp add: longest_zero_run_def Let_def)

lemma parts_loop_returns:
  "bs = - 1 \<or> 1 \<le> bl \<Longrightarrow> \<exists>ps. parts_loop words bs bl i parts = Some ps"
proof (induction "8 - i" arbitrary: i parts rule: less_induct)
  case less
  show ?case
  proof (cases "i < 8")
    case False
    then show ?thesis by (subst parts_loop.simps) simp
  next
    case True
    show ?thesis
    proof (cases "int i = bs")
      case True
      with less.prems have bl: "1 \<le> bl" by auto
      with \<open>i < 8\<close> have "8 - (i + bl) < 8 - i" by arith
      from less.hyps [OF this less.prems] obtain ps where
        "parts_loop words bs bl (i + bl)
           (if i + bl \<ge> 8 then parts @ [[], []] else parts @ [[]]) = Some ps"
        by blast
      with True \<open>i < 8\<close> show ?thesis by (subst parts_loop.simps) simp
    next
      case False
      from \<open>i < 8\<close> have "8 - (i + 1) < 8 - i" by arith
      from less.hyps [OF this less.prems] obtain ps where
        "parts_loop words bs bl (i + 1) (parts @ [hex (unat (words ! i))]) = Some ps"
        by blast
      with False \<open>i < 8\<close> show ?thesis by (subst parts_loop.simps) simp
    qed
  qed
qed

lemma toIPv6String_returns: "length u8 = 16 \<Longrightarrow> \<exists>s. toIPv6String u8 = Some s"
proof -
  assume len: "length u8 = 16"
  have "bestStart (longest_zero_run (ipv6_words u8)) = - 1
      \<or> 1 \<le> bestLen (longest_zero_run (ipv6_words u8))"
    using longest_zero_run_start [of "ipv6_words u8"] by auto
  from parts_loop_returns [OF this] obtain ps where
    "parts_loop (ipv6_words u8) (bestStart (longest_zero_run (ipv6_words u8)))
       (bestLen (longest_zero_run (ipv6_words u8))) 0 [] = Some ps"
    by blast
  with len show ?thesis by (simp add: toIPv6String_def Let_def)
qed

lemma toIPv6String_samples:
  "toIPv6String (replicate 15 0 @ [1]) = Some ''::1''"
  "toIPv6String [0, 1, 0, 0, 0, 2, 0, 3, 0, 4, 0, 5, 0, 6, 0, 7] = Some ''1:0:2:3:4:5:6:7''"
  "toIPv6String [0, 1, 0, 0, 0, 0, 0, 0, 0, 0, 0, 0, 0, 0, 0, 2] = Some ''1::2''"
  "toIPv6String [0, 1, 0, 0, 0, 0, 0, 0, 0, 0, 0, 0, 0, 0, 0, 0] = Some ''1:::''"
  by code_simp+

text \<open>The network address \<open>2001:db8::\<close>, as every address that ends in its zero run.\<close>

lemma ipv6_words_doc:
  "ipv6_words [0x20, 1, 0xd, 0xb8, 0, 0, 0, 0, 0, 0, 0, 0, 0, 0, 0, 0]
   = [0x2001, 0xdb8, 0, 0, 0, 0, 0, 0]"
  by (simp add: ipv6_words_def upt_rec)

lemma hex_doc: "hex 8193 = ''2001''" "hex 3512 = ''db8''"
  by (simp_all add: hex_def to_radix.simps digit_char_def)

lemma longest_zero_run_doc:
  "longest_zero_run [0x2001, 0xdb8, 0, 0, 0, 0, 0, 0]
   = \<lparr>bestStart = 2, bestLen = 6, curStart = 2, curLen = 6\<rparr>"
  by (simp add: longest_zero_run_def upt_rec zero_run_step_def take_best_def Let_def)

lemma toIPv6String_trailing_run:
  "toIPv6String [0x20, 1, 0xd, 0xb8, 0, 0, 0, 0, 0, 0, 0, 0, 0, 0, 0, 0] = Some ''2001:db8:::''"
  by (simp add: toIPv6String_def ipv6_words_doc longest_zero_run_doc Let_def parts_loop.simps
      hex_doc replace_leading_colon_def replace_trailing_colon_def)

text \<open>
  C4. The claim is that the longest run of at least two zero words is replaced by
  \<open>::\<close>, so that sixteen zero bytes give \<open>::\<close>. The code gives \<open>:::\<close>: for a run
  that reaches the last word the loop pushes two empty parts, the join ends in \<open>::\<close>
  already, and \<open>replace(/:$/, "::")\<close> adds a third colon.
\<close>

theorem toIPv6String_all_zero:
  "toIPv6String [0, 0, 0, 0, 0, 0, 0, 0, 0, 0, 0, 0, 0, 0, 0, 0] = Some '':::''"
  by code_simp

section \<open>Properties of the publisher\<close>

lemma foldl_changed_step:
  "foldl (changed_step re) acc lp = acc @ filter (is_changed re) lp"
  by (induction lp arbitrary: acc) (simp_all add: changed_step_def)

lemma changed_set_filter: "changed_set re lp = filter (is_changed re) lp"
  by (simp add: changed_set_def foldl_changed_step)


text \<open>
  C5. A local item is in the changed set if and only if the remote entries have nothing
  under its key, or the entry there has another \<open>sha256\<close> or another \<open>size\<close>. When the
  changed set is empty \<open>uploadPlan\<close> returns normally without a single remote write: no
  object is put and no manifest.
\<close>

theorem changed_set_iff:
  "(it \<in> set (changed_set (remote_entries remoteManifest) localPlan) \<longleftrightarrow>
      it \<in> set localPlan \<and>
      (remote_entries remoteManifest (item_key it) = None \<or>
       (\<exists>remote. remote_entries remoteManifest (item_key it) = Some remote \<and>
          (entry_sha256 remote \<noteq> item_sha256 it \<or> entry_size remote \<noteq> item_size it))))
   \<and> (changed_set (remote_entries remoteManifest) localPlan = [] \<longrightarrow>
        uploadPlan dry ok now manifestKey localPlan remoteManifest
          = Completed \<lparr>puts = [], returned = Some (remote_entries remoteManifest)\<rparr>)"
  by (auto simp: changed_set_filter is_changed_def uploadPlan_def Let_def split: option.splits)

theorem changed_set_iff_witness:
  "changed_set
     (remote_entries (Some \<lparr>version = 1, generatedAt = 0,
        entries = [''geosite/a.srs'' \<mapsto> \<lparr>entry_sha256 = ''aa'', entry_size = 3\<rparr>]\<rparr>))
     [\<lparr>item_file = ''dist/srs/a.srs'', item_key = ''geosite/a.srs'', item_size = 3,
       item_sha256 = ''aa'', item_contentType = ''application/octet-stream''\<rparr>] = []
   \<and> uploadPlan False (\<lambda>k. False) 7 ''manifests/geosite.json''
     [\<lparr>item_file = ''dist/srs/a.srs'', item_key = ''geosite/a.srs'', item_size = 3,
       item_sha256 = ''aa'', item_contentType = ''application/octet-stream''\<rparr>]
     (Some \<lparr>version = 1, generatedAt = 0,
        entries = [''geosite/a.srs'' \<mapsto> \<lparr>entry_sha256 = ''aa'', entry_size = 3\<rparr>]\<rparr>)
     = Completed \<lparr>puts = [],
         returned = Some [''geosite/a.srs'' \<mapsto> \<lparr>entry_sha256 = ''aa'', entry_size = 3\<rparr>]\<rparr>
   \<and> changed_set
     (remote_entries (Some \<lparr>version = 1, generatedAt = 0,
        entries = [''geosite/a.srs'' \<mapsto> \<lparr>entry_sha256 = ''aa'', entry_size = 3\<rparr>]\<rparr>))
     [\<lparr>item_file = ''dist/srs/a.srs'', item_key = ''geosite/a.srs'', item_size = 3,
       item_sha256 = ''ab'', item_contentType = ''application/octet-stream''\<rparr>]
     = [\<lparr>item_file = ''dist/srs/a.srs'', item_key = ''geosite/a.srs'', item_size = 3,
       item_sha256 = ''ab'', item_contentType = ''application/octet-stream''\<rparr>]"
proof -
  let ?a = "\<lparr>item_file = ''dist/srs/a.srs'', item_key = ''geosite/a.srs'', item_size = 3,
       item_sha256 = ''aa'', item_contentType = ''application/octet-stream''\<rparr>"
  let ?rm = "Some \<lparr>version = 1, generatedAt = 0,
        entries = [''geosite/a.srs'' \<mapsto> \<lparr>entry_sha256 = ''aa'', entry_size = 3\<rparr>]\<rparr>"
  have h: "changed_set (remote_entries ?rm) [?a] = []"
    by (simp add: changed_set_def changed_step_def is_changed_def remote_entries_def)
  from changed_set_iff [where remoteManifest = ?rm and localPlan = "[?a]" and dry = False
      and ok = "\<lambda>k. False" and now = 7 and manifestKey = "''manifests/geosite.json''",
      THEN conjunct2, rule_format, OF h]
  have "uploadPlan False (\<lambda>k. False) 7 ''manifests/geosite.json'' [?a] ?rm
      = Completed \<lparr>puts = [], returned = Some (remote_entries ?rm)\<rparr>" .
  with h show ?thesis
    by (simp add: remote_entries_def changed_set_def changed_step_def is_changed_def)
qed

lemma merge_entries_override:
  "merge_entries re lp = re ++ map_of (rev (map local_entry lp))"
proof (induction lp arbitrary: re)
  case Nil
  show ?case by (simp add: merge_entries_def)
next
  case (Cons it lp)
  have "merge_entries re (it # lp) = merge_entries (merge_step re it) lp"
    by (simp add: merge_entries_def)
  also have "\<dots> = merge_step re it ++ map_of (rev (map local_entry lp))"
    by (rule Cons.IH)
  also have "merge_step re it = re ++ map_of [local_entry it]"
    by (simp add: merge_step_def local_entry_def)
  finally show ?case by (simp add: map_add_assoc del: map_add_upd)
qed

lemma merge_entries_local:
  assumes "distinct (map item_key lp)" and "it \<in> set lp"
  shows "merge_entries re lp (item_key it)
    = Some \<lparr>entry_sha256 = item_sha256 it, entry_size = item_size it\<rparr>"
proof -
  have "map fst (rev (map local_entry lp)) = rev (map item_key lp)"
    by (simp add: rev_map local_entry_def comp_def)
  with assms(1) have d: "distinct (map fst (rev (map local_entry lp)))" by simp
  from assms(2) have "local_entry it \<in> set (rev (map local_entry lp))" by simp
  then have "(item_key it, \<lparr>entry_sha256 = item_sha256 it, entry_size = item_size it\<rparr>)
      \<in> set (rev (map local_entry lp))"
    by (simp add: local_entry_def)
  from map_of_is_SomeI [OF d this] show ?thesis
    by (simp add: merge_entries_override)
qed

lemma merge_step_unchanged: "\<not> is_changed re it \<Longrightarrow> merge_step re it = re"
  by (auto simp: is_changed_def merge_step_def local_entry_def fun_eq_iff split: option.splits)

lemma merge_entries_unchanged:
  "changed_set re lp = [] \<Longrightarrow> merge_entries re lp = re"
proof -
  assume "changed_set re lp = []"
  then have "\<forall>it\<in>set lp. \<not> is_changed re it"
    by (simp add: changed_set_filter filter_empty_conv)
  then show ?thesis
    unfolding merge_entries_def
    by (induction lp) (simp_all add: merge_step_unchanged)
qed

lemma upload_worker_completed:
  "upload_worker dry ok changed idx ps = Completed ps' \<Longrightarrow>
   ps' = ps @ (if dry then [] else map put_item (drop idx changed))"
proof (induction dry ok changed idx ps rule: upload_worker.induct)
  case (1 dry ok changed idx ps)
  show ?case
  proof (cases "idx < length changed")
    case False
    with "1.prems" show ?thesis by (subst (asm) upload_worker.simps) simp
  next
    case True
    then have d: "drop idx changed = changed ! idx # drop (idx + 1) changed"
      by (simp add: Cons_nth_drop_Suc)
    show ?thesis
    proof (cases dry)
      case True
      with \<open>idx < length changed\<close> "1.prems"
      have "upload_worker dry ok changed (idx + 1) ps = Completed ps'"
        by (subst (asm) upload_worker.simps) simp
      from "1.IH"(1) [OF \<open>idx < length changed\<close> True this] True show ?thesis by simp
    next
      case False
      with \<open>idx < length changed\<close> "1.prems" have okk: "ok (item_key (changed ! idx))"
        by (subst (asm) upload_worker.simps) (simp split: if_splits)
      with False \<open>idx < length changed\<close> "1.prems"
      have "upload_worker dry ok changed (idx + 1) (ps @ [put_item (changed ! idx)]) = Completed ps'"
        by (subst (asm) upload_worker.simps) simp
      from "1.IH"(2) [OF \<open>idx < length changed\<close> False okk this] False d
      show ?thesis by simp
    qed
  qed
qed

lemma upload_worker_all_ok:
  "\<forall>it\<in>set changed. ok (item_key it) \<Longrightarrow>
   \<exists>ps'. upload_worker dry ok changed idx ps = Completed ps'"
proof (induction dry ok changed idx ps rule: upload_worker.induct)
  case (1 dry ok changed idx ps)
  show ?case
  proof (cases "idx < length changed")
    case False
    then show ?thesis by (subst upload_worker.simps) simp
  next
    case True
    with "1.prems" have okk: "ok (item_key (changed ! idx))" by simp
    show ?thesis
    proof (cases dry)
      case True
      from "1.IH"(1) [OF \<open>idx < length changed\<close> True "1.prems"]
      obtain ps' where "upload_worker dry ok changed (idx + 1) ps = Completed ps'" by blast
      with True \<open>idx < length changed\<close> show ?thesis by (subst upload_worker.simps) simp
    next
      case False
      from "1.IH"(2) [OF \<open>idx < length changed\<close> False okk "1.prems"]
      obtain ps' where
        "upload_worker dry ok changed (idx + 1) (ps @ [put_item (changed ! idx)]) = Completed ps'"
        by blast
      with False okk \<open>idx < length changed\<close> show ?thesis by (subst upload_worker.simps) simp
    qed
  qed
qed

text \<open>
  C7, as amended. Whenever \<open>uploadPlan\<close> returns normally, the entries it returns are the remote
  entries overridden by the entry of every local item, in the order of the plan (a later
  item wins over an earlier one with the same key, and every local item over the remote
  entry); with the keys of the local inventory distinct, every local key maps to the
  \<open>sha256\<close> and the \<open>size\<close> of its item. When something was changed, outside a dry
  run, the writes are the changed objects followed by the manifest holding these
  entries, as the last write; otherwise nothing is written. The run returns normally
  when the storage accepts every write.
\<close>

theorem uploadPlan_manifest_merged:
  "(uploadPlan dry ok now manifestKey localPlan remoteManifest = Completed st \<longrightarrow>
      returned st = Some (merge_entries (remote_entries remoteManifest) localPlan)
      \<and> merge_entries (remote_entries remoteManifest) localPlan
          = remote_entries remoteManifest ++ map_of (rev (map local_entry localPlan))
      \<and> (distinct (map item_key localPlan) \<longrightarrow>
          (\<forall>it\<in>set localPlan.
             merge_entries (remote_entries remoteManifest) localPlan (item_key it)
               = Some \<lparr>entry_sha256 = item_sha256 it, entry_size = item_size it\<rparr>))
      \<and> puts st =
          (if dry \<or> changed_set (remote_entries remoteManifest) localPlan = [] then []
           else map put_item (changed_set (remote_entries remoteManifest) localPlan) @
                [Put_manifest manifestKey
                   \<lparr>version = 1, generatedAt = now,
                    entries = merge_entries (remote_entries remoteManifest) localPlan\<rparr>]))
   \<and> ((\<forall>it\<in>set localPlan. ok (item_key it)) \<and> ok manifestKey \<longrightarrow>
        (\<exists>st'. uploadPlan dry ok now manifestKey localPlan remoteManifest = Completed st'))"
proof (intro conjI impI)
  let ?re = "remote_entries remoteManifest"
  let ?ch = "changed_set ?re localPlan"
  assume run: "uploadPlan dry ok now manifestKey localPlan remoteManifest = Completed st"
  show "returned st = Some (merge_entries ?re localPlan)"
  proof (cases "?ch = []")
    case True
    with run show ?thesis
      by (auto simp: uploadPlan_def Let_def merge_entries_unchanged)
  next
    case False
    with run show ?thesis
      by (auto simp: uploadPlan_def Let_def split: run.splits if_splits)
  qed
  show "puts st =
      (if dry \<or> ?ch = [] then []
       else map put_item ?ch @
            [Put_manifest manifestKey
               \<lparr>version = 1, generatedAt = now, entries = merge_entries ?re localPlan\<rparr>])"
  proof (cases "?ch = []")
    case True
    with run show ?thesis by (auto simp: uploadPlan_def Let_def)
  next
    case False
    with run obtain ps where w: "upload_worker dry ok ?ch 0 [] = Completed ps"
      by (auto simp: uploadPlan_def Let_def split: run.splits)
    from upload_worker_completed [OF w] have ps: "ps = (if dry then [] else map put_item ?ch)"
      by simp
    from run False w ps show ?thesis
      by (auto simp: uploadPlan_def Let_def split: if_splits)
  qed
next
  show "merge_entries (remote_entries remoteManifest) localPlan
      = remote_entries remoteManifest ++ map_of (rev (map local_entry localPlan))"
    by (rule merge_entries_override)
next
  assume "distinct (map item_key localPlan)"
  then show "\<forall>it\<in>set localPlan.
      merge_entries (remote_entries remoteManifest) localPlan (item_key it)
        = Some \<lparr>entry_sha256 = item_sha256 it, entry_size = item_size it\<rparr>"
    by (simp add: merge_entries_local)
next
  let ?re = "remote_entries remoteManifest"
  let ?ch = "changed_set ?re localPlan"
  assume a: "(\<forall>it\<in>set localPlan. ok (item_key it)) \<and> ok manifestKey"
  then have "\<forall>it\<in>set ?ch. ok (item_key it)" by (simp add: changed_set_filter)
  from upload_worker_all_ok [OF this] obtain ps where
    "upload_worker dry ok ?ch 0 [] = Completed ps" by blast
  with a show "\<exists>st'. uploadPlan dry ok now manifestKey localPlan remoteManifest = Completed st'"
    by (simp add: uploadPlan_def Let_def)
qed


theorem uploadPlan_manifest_merged_witness:
  "uploadPlan False (\<lambda>k. True) 7 ''manifests/geosite.json''
     [\<lparr>item_file = ''dist/srs/a.srs'', item_key = ''geosite/a.srs'', item_size = 3,
       item_sha256 = ''aa'', item_contentType = ''application/octet-stream''\<rparr>,
      \<lparr>item_file = ''index.json'', item_key = ''geosite/index.json'', item_size = 9,
       item_sha256 = ''bb'', item_contentType = ''application/json''\<rparr>]
     (Some \<lparr>version = 1, generatedAt = 0,
            entries = [''geosite/a.srs'' \<mapsto> \<lparr>entry_sha256 = ''aa'', entry_size = 3\<rparr>,
                       ''geosite/index.json'' \<mapsto> \<lparr>entry_sha256 = ''b0'', entry_size = 9\<rparr>]\<rparr>)
   = Completed
       \<lparr>puts = [Put_object ''geosite/index.json'' ''index.json'' ''application/json'',
                Put_manifest ''manifests/geosite.json''
                  \<lparr>version = 1, generatedAt = 7,
                   entries = [''geosite/a.srs'' \<mapsto> \<lparr>entry_sha256 = ''aa'', entry_size = 3\<rparr>,
                              ''geosite/index.json'' \<mapsto> \<lparr>entry_sha256 = ''bb'', entry_size = 9\<rparr>]\<rparr>],
        returned = Some [''geosite/a.srs'' \<mapsto> \<lparr>entry_sha256 = ''aa'', entry_size = 3\<rparr>,
                         ''geosite/index.json'' \<mapsto> \<lparr>entry_sha256 = ''bb'', entry_size = 9\<rparr>]\<rparr>
   \<and> distinct (map item_key
     [\<lparr>item_file = ''dist/srs/a.srs'', item_key = ''geosite/a.srs'', item_size = 3,
       item_sha256 = ''aa'', item_contentType = ''application/octet-stream''\<rparr>,
      \<lparr>item_file = ''index.json'', item_key = ''geosite/index.json'', item_size = 9,
       item_sha256 = ''bb'', item_contentType = ''application/json''\<rparr>])
   \<and> [''geosite/a.srs'' \<mapsto> \<lparr>entry_sha256 = ''aa'', entry_size = 3\<rparr>,
       ''geosite/index.json'' \<mapsto> \<lparr>entry_sha256 = ''bb'', entry_size = 9\<rparr>] ''geosite/index.json''
     = Some \<lparr>entry_sha256 = ''bb'', entry_size = 9\<rparr>"
proof -
  let ?a = "\<lparr>item_file = ''dist/srs/a.srs'', item_key = ''geosite/a.srs'', item_size = 3,
       item_sha256 = ''aa'', item_contentType = ''application/octet-stream''\<rparr>"
  let ?b = "\<lparr>item_file = ''index.json'', item_key = ''geosite/index.json'', item_size = 9,
       item_sha256 = ''bb'', item_contentType = ''application/json''\<rparr>"
  let ?rm = "Some \<lparr>version = 1, generatedAt = 0,
            entries = [''geosite/a.srs'' \<mapsto> \<lparr>entry_sha256 = ''aa'', entry_size = 3\<rparr>,
                       ''geosite/index.json'' \<mapsto> \<lparr>entry_sha256 = ''b0'', entry_size = 9\<rparr>]\<rparr>"
  let ?m = "[''geosite/a.srs'' \<mapsto> \<lparr>entry_sha256 = ''aa'', entry_size = 3\<rparr>,
         ''geosite/index.json'' \<mapsto> \<lparr>entry_sha256 = ''bb'', entry_size = 9\<rparr>]"
  have ch: "changed_set (remote_entries ?rm) [?a, ?b] = [?b]"
    by (simp add: changed_set_def changed_step_def is_changed_def remote_entries_def)
  have m: "merge_entries (remote_entries ?rm) [?a, ?b] = ?m"
    by (simp add: merge_entries_def merge_step_def local_entry_def remote_entries_def)
  have w: "upload_worker False (\<lambda>k. True) [?b] 0 [] = Completed [put_item ?b]"
    by (simp add: upload_worker.simps)
  have run: "uploadPlan False (\<lambda>k. True) 7 ''manifests/geosite.json'' [?a, ?b] ?rm
      = Completed \<lparr>puts = [put_item ?b, Put_manifest ''manifests/geosite.json''
           \<lparr>version = 1, generatedAt = 7, entries = ?m\<rparr>], returned = Some ?m\<rparr>"
    by (simp add: uploadPlan_def Let_def ch m w)
  have d: "distinct (map item_key [?a, ?b])" by simp
  note T = uploadPlan_manifest_merged [of False "\<lambda>k. True" 7 "''manifests/geosite.json''"
      "[?a, ?b]" ?rm, THEN conjunct1, rule_format, OF run]
  from T [THEN conjunct2, THEN conjunct2, THEN conjunct1, rule_format, OF d, of ?b]
  have "merge_entries (remote_entries ?rm) [?a, ?b] (item_key ?b)
      = Some \<lparr>entry_sha256 = ''bb'', entry_size = 9\<rparr>"
    by simp
  then have "?m ''geosite/index.json'' = Some \<lparr>entry_sha256 = ''bb'', entry_size = 9\<rparr>"
    by (simp only: m) simp
  with run d show ?thesis by (simp add: put_item_def)
qed

text \<open>
  C7 as stated fails for a local inventory in which two files have the same key:
  \<open>walk\<close> goes into subdirectories and the key keeps the base name only, so that
  \<open>dist/srs/a.srs\<close> and \<open>dist/srs/sub/a.srs\<close> both have the key \<open>geosite/a.srs\<close>.
  The run completes, and the manifest holds the hash and the size of the later file
  under that key, not those of the first.
\<close>

theorem uploadPlan_shared_key_counterexample:
  "uploadPlan False (\<lambda>k. True) 7 ''manifests/geosite.json''
     [\<lparr>item_file = ''dist/srs/a.srs'', item_key = ''geosite/a.srs'', item_size = 3,
       item_sha256 = ''aa'', item_contentType = ''application/octet-stream''\<rparr>,
      \<lparr>item_file = ''dist/srs/sub/a.srs'', item_key = ''geosite/a.srs'', item_size = 4,
       item_sha256 = ''bb'', item_contentType = ''application/octet-stream''\<rparr>]
     None
   = Completed
       \<lparr>puts = [Put_object ''geosite/a.srs'' ''dist/srs/a.srs'' ''application/octet-stream'',
                Put_object ''geosite/a.srs'' ''dist/srs/sub/a.srs'' ''application/octet-stream'',
                Put_manifest ''manifests/geosite.json''
                  \<lparr>version = 1, generatedAt = 7,
                   entries = [''geosite/a.srs'' \<mapsto> \<lparr>entry_sha256 = ''bb'', entry_size = 4\<rparr>]\<rparr>],
        returned = Some [''geosite/a.srs'' \<mapsto> \<lparr>entry_sha256 = ''bb'', entry_size = 4\<rparr>]\<rparr>
   \<and> [''geosite/a.srs'' \<mapsto> \<lparr>entry_sha256 = ''bb'', entry_size = 4\<rparr>] ''geosite/a.srs''
       \<noteq> Some \<lparr>entry_sha256 = ''aa'', entry_size = 3\<rparr>"
proof -
  let ?a = "\<lparr>item_file = ''dist/srs/a.srs'', item_key = ''geosite/a.srs'', item_size = 3,
       item_sha256 = ''aa'', item_contentType = ''application/octet-stream''\<rparr>"
  let ?b = "\<lparr>item_file = ''dist/srs/sub/a.srs'', item_key = ''geosite/a.srs'', item_size = 4,
       item_sha256 = ''bb'', item_contentType = ''application/octet-stream''\<rparr>"
  let ?m = "[''geosite/a.srs'' \<mapsto> \<lparr>entry_sha256 = ''bb'', entry_size = 4\<rparr>]"
  have ch: "changed_set (remote_entries None) [?a, ?b] = [?a, ?b]"
    by (simp add: changed_set_def changed_step_def is_changed_def remote_entries_def)
  have m: "merge_entries (remote_entries None) [?a, ?b] = ?m"
    by (simp add: merge_entries_def merge_step_def local_entry_def remote_entries_def)
  have w: "upload_worker False (\<lambda>k. True) [?a, ?b] 0 [] = Completed [put_item ?a, put_item ?b]"
    by (simp add: upload_worker.simps)
  have "uploadPlan False (\<lambda>k. True) 7 ''manifests/geosite.json'' [?a, ?b] None
      = Completed \<lparr>puts = [put_item ?a, put_item ?b, Put_manifest ''manifests/geosite.json''
           \<lparr>version = 1, generatedAt = 7, entries = ?m\<rparr>], returned = Some ?m\<rparr>"
    by (simp add: uploadPlan_def Let_def ch m w)
  then show ?thesis by (simp add: put_item_def)
qed

section \<open>Properties of the compiler adapters\<close>

lemma pool_worker_runs_all:
  "pool_worker ok tasks i st =
     \<lparr>started = started st @ drop i tasks,
      results = results st @ map (\<lambda>t. if ok t then Fulfilled else Rejected) (drop i tasks)\<rparr>"
proof (induction ok tasks i st rule: pool_worker.induct)
  case (1 ok tasks i st)
  show ?case
  proof (cases "i \<ge> length tasks")
    case True
    then show ?thesis by (subst pool_worker.simps) simp
  next
    case False
    then have d: "drop i tasks = tasks ! i # drop (i + 1) tasks"
      by (simp add: Cons_nth_drop_Suc)
    from False "1.IH" show ?thesis
      by (subst pool_worker.simps) (simp add: d)
  qed
qed

lemma runPool_runs_all:
  "0 < concurrency \<Longrightarrow>
   runPool ok tasks concurrency =
     \<lparr>started = tasks, results = map (\<lambda>t. if ok t then Fulfilled else Rejected) tasks\<rparr>"
  by (simp add: runPool_def pool_worker_runs_all)

lemma filter_none: "filter_key None = None" "filter_neg None = False"
  by (simp_all add: filter_key_def filter_neg_def filter_target_def)

lemma srs_state_update:
  "(st :: srs_state)\<lparr>invoked := a, total := b\<rparr> = \<lparr>invoked = a, total = b\<rparr>"
  "(st :: srs_state)\<lparr>invoked := a\<rparr> = \<lparr>invoked = a, total = total st\<rparr>"
  by (cases st, simp)+

lemma srs_filters_in_order:
  fixes st :: srs_state
  shows "srs_filters ok name rules flts st =
     compile_in_order ok
       (map (\<lambda>flt. name @ variant_suffix flt @ ''.srs'')
          (filter (\<lambda>flt. toHeadlessRule rules flt \<noteq> []) flts)) st"
  by (induction flts arbitrary: st) (simp_all add: Let_def srs_state_update)

lemma compile_in_order_append:
  "compile_in_order ok (xs @ ys) st =
     (case compile_in_order ok xs st of
        Aborted st' \<Rightarrow> Aborted st'
      | Completed st' \<Rightarrow> compile_in_order ok ys st')"
  by (induction xs arbitrary: st) simp_all

lemma srs_names_in_order:
  fixes st :: srs_state
  shows "srs_names ok readCategory filters names st =
     compile_in_order ok (srs_tasks readCategory names filters) st"
proof (induction names arbitrary: st)
  case Nil
  show ?case by (simp add: srs_tasks_def)
next
  case (Cons name names)
  have "srs_tasks readCategory (name # names) filters =
      map (\<lambda>flt. name @ variant_suffix flt @ ''.srs'')
        (filter (\<lambda>flt. toHeadlessRule (readCategory name) flt \<noteq> []) filters)
      @ srs_tasks readCategory names filters"
    by (simp add: srs_tasks_def)
  then show ?case
    by (simp add: compile_in_order_append srs_filters_in_order Cons.IH split: run.splits)
qed

lemma compile_in_order_all_ok:
  fixes st :: srs_state
  shows "\<forall>t\<in>set ts. ok t \<Longrightarrow>
     compile_in_order ok ts st =
       Completed \<lparr>invoked = invoked st @ ts, total = total st + length ts\<rparr>"
  by (induction ts arbitrary: st) simp_all

lemma compile_in_order_failure:
  fixes st :: srs_state
  shows "\<exists>t\<in>set ts. \<not> ok t \<Longrightarrow>
     compile_in_order ok ts st =
       Aborted \<lparr>invoked = invoked st @ takeWhile ok ts @ [hd (dropWhile ok ts)],
                total = total st + length (takeWhile ok ts)\<rparr>"
proof (induction ts arbitrary: st)
  case Nil
  then show ?case by simp
next
  case (Cons t ts)
  show ?case
  proof (cases "ok t")
    case True
    with Cons.prems have "\<exists>t\<in>set ts. \<not> ok t" by simp
    from Cons.IH [OF this] True show ?thesis by simp
  next
    case False
    then show ?thesis by simp
  qed
qed

text \<open>
  C6, as amended. In the domain build (\<open>build-srs.mjs\<close>) the tasks, all categories by
  variants, are compiled one after the other: when the compiler succeeds on all of them,
  all are compiled and counted; when it fails on one, the run is aborted at the first such
  task, the tasks after it are not run, and the process exits with status 1. In the IP
  build the pool starts every task whatever the outcome of the others and records the
  outcome of each: a failure aborts that task only.
\<close>

theorem compile_failure_handling:
  "((\<forall>t\<in>set (srs_tasks readCategory names filters). ok t) \<longrightarrow>
      srs_main ok readCategory names filters =
        Completed \<lparr>invoked = srs_tasks readCategory names filters,
                   total = length (srs_tasks readCategory names filters)\<rparr>)
   \<and> ((\<exists>t\<in>set (srs_tasks readCategory names filters). \<not> ok t) \<longrightarrow>
      srs_main ok readCategory names filters =
        Aborted \<lparr>invoked = takeWhile ok (srs_tasks readCategory names filters) @
                             [hd (dropWhile ok (srs_tasks readCategory names filters))],
                 total = length (takeWhile ok (srs_tasks readCategory names filters))\<rparr>
      \<and> exit_status (srs_main ok readCategory names filters) = 1)
   \<and> pool (final_state (geoip_srs_main ok' readGroup groupNames concurrency)) =
        \<lparr>started = geoip_srs_tasks readGroup groupNames,
         results = map (\<lambda>t. if ok' t then Fulfilled else Rejected)
                     (geoip_srs_tasks readGroup groupNames)\<rparr>"
proof -
  have g: "pool (final_state (geoip_srs_main ok' readGroup groupNames concurrency)) =
        \<lparr>started = geoip_srs_tasks readGroup groupNames,
         results = map (\<lambda>t. if ok' t then Fulfilled else Rejected)
                     (geoip_srs_tasks readGroup groupNames)\<rparr>"
    by (simp add: geoip_srs_main_def final_state_def Let_def runPool_runs_all geoip_srs_tasks_def)
  show ?thesis
    using g
    by (simp add: srs_main_def srs_names_in_order compile_in_order_all_ok
        compile_in_order_failure exit_status_def)
qed

theorem compile_failure_handling_witness:
  "srs_tasks (\<lambda>name. [\<lparr>rule_type = ''full'', rule_value = ''x.com'', attrs = []\<rparr>])
        [''a'', ''b''] [None, Some ''cn''] = [''a.srs'', ''b.srs'']
   \<and> srs_main (\<lambda>p. p \<noteq> ''a.srs'')
        (\<lambda>name. [\<lparr>rule_type = ''full'', rule_value = ''x.com'', attrs = []\<rparr>])
        [''a'', ''b''] [None, Some ''cn'']
      = Aborted \<lparr>invoked = [''a.srs''], total = 0\<rparr>
   \<and> srs_main (\<lambda>p. True)
        (\<lambda>name. [\<lparr>rule_type = ''full'', rule_value = ''x.com'', attrs = []\<rparr>])
        [''a'', ''b''] [None, Some ''cn'']
      = Completed \<lparr>invoked = [''a.srs'', ''b.srs''], total = 2\<rparr>"
proof -
  let ?rd = "\<lambda>name :: string. [\<lparr>rule_type = ''full'', rule_value = ''x.com'', attrs = []\<rparr>]"
  have h: "toHeadlessRule [\<lparr>rule_type = ''full'', rule_value = ''x.com'', attrs = []\<rparr>] None
        = [(''domain'', [''x.com''])]"
    "toHeadlessRule [\<lparr>rule_type = ''full'', rule_value = ''x.com'', attrs = []\<rparr>] (Some ''cn'') = []"
    by (simp_all add: toHeadlessRule_def agg_step_def skips_def filter_key_cn filter_none
        has_key_def headless_def push_rule_def empty_agg_def)
  have ts: "srs_tasks ?rd [''a'', ''b''] [None, Some ''cn''] = [''a.srs'', ''b.srs'']"
    by (simp add: srs_tasks_def h variant_suffix_def)
  have f: "\<exists>t\<in>set (srs_tasks ?rd [''a'', ''b''] [None, Some ''cn'']). \<not> (\<lambda>p. p \<noteq> ''a.srs'') t"
    by (simp add: ts)
  have a: "\<forall>t\<in>set (srs_tasks ?rd [''a'', ''b''] [None, Some ''cn'']). (\<lambda>p. True) t"
    by simp
  from compile_failure_handling [where ok = "\<lambda>p. p \<noteq> ''a.srs''" and readCategory = ?rd
      and names = "[''a'', ''b'']" and filters = "[None, Some ''cn'']",
      THEN conjunct2, THEN conjunct1, THEN mp, OF f]
  have 1: "srs_main (\<lambda>p. p \<noteq> ''a.srs'') ?rd [''a'', ''b''] [None, Some ''cn'']
      = Aborted \<lparr>invoked = [''a.srs''], total = 0\<rparr>"
    by (simp add: ts)
  from compile_failure_handling [where ok = "\<lambda>p. True" and readCategory = ?rd
      and names = "[''a'', ''b'']" and filters = "[None, Some ''cn'']",
      THEN conjunct1, THEN mp, OF a]
  have 2: "srs_main (\<lambda>p. True) ?rd [''a'', ''b''] [None, Some ''cn'']
      = Completed \<lparr>invoked = [''a.srs'', ''b.srs''], total = 2\<rparr>"
    by (simp add: ts)
  from ts 1 2 show ?thesis by blast
qed

text \<open>
  C6 as stated fails in the domain build: of the two tasks \<open>a.srs\<close> and \<open>b.srs\<close>,
  the compiler fails on the first, and the second is never run.
\<close>

theorem sibling_task_not_run_counterexample:
  "srs_tasks (\<lambda>name. [\<lparr>rule_type = ''full'', rule_value = ''x.com'', attrs = []\<rparr>])
        [''a'', ''b''] [None] = [''a.srs'', ''b.srs'']
   \<and> srs_main (\<lambda>p. p \<noteq> ''a.srs'')
        (\<lambda>name. [\<lparr>rule_type = ''full'', rule_value = ''x.com'', attrs = []\<rparr>])
        [''a'', ''b''] [None]
      = Aborted \<lparr>invoked = [''a.srs''], total = 0\<rparr>"
  by (simp add: srs_main_def srs_tasks_def variant_suffix_def toHeadlessRule_def agg_step_def
      skips_def headless_def push_rule_def empty_agg_def filter_none srs_state_update)

text \<open>
  In the IP build a failed task leaves the run completed, with the number of tasks
  logged as generated.
\<close>

lemma geoip_srs_main_after_failure:
  "geoip_srs_main (\<lambda>p. p \<noteq> ''a.srs'')
     (\<lambda>name. \<lparr>group_name = name, cidr4 = [''10.0.0.0/8''], cidr6 = []\<rparr>) [''a''] 6
   = Completed \<lparr>pool = \<lparr>started = [''a.srs'', ''a@v4.srs''], results = [Rejected, Fulfilled]\<rparr>,
                generated = 2\<rparr>"
  by (simp add: geoip_srs_main_def geoip_srs_tasks_def group_tasks_def geoip_filters_def
      toHeadlessRule_ip_def wants_def variant_suffix_def runPool_runs_all toLowerCase_def
      toLowerCase_char_def)

section \<open>Properties of the rule sort\<close>

lemma mset_insert_by: "mset (insert_by cmp x xs) = add_mset x (mset xs)"
  by (induction xs) simp_all

lemma mset_sort_js: "mset (sort_js cmp xs) = mset xs"
  by (induction xs) (simp_all add: sort_js_def mset_insert_by)

lemma set_insert_by: "set (insert_by cmp x xs) = insert x (set xs)"
  using mset_insert_by [of cmp x xs, THEN arg_cong, of set_mset] by simp

lemma set_sort_js: "set (sort_js cmp xs) = set xs"
  using mset_sort_js [of cmp xs, THEN arg_cong, of set_mset] by simp

lemma sorted_insert_by:
  assumes tot: "\<And>a b. a \<in> A \<Longrightarrow> b \<in> A \<Longrightarrow> cmp a b \<le> 0 \<or> cmp b a \<le> 0"
    and tr: "\<And>a b c. a \<in> A \<Longrightarrow> b \<in> A \<Longrightarrow> c \<in> A \<Longrightarrow> cmp a b \<le> 0 \<Longrightarrow> cmp b c \<le> 0
               \<Longrightarrow> cmp a c \<le> 0"
    and "x \<in> A" and "set xs \<subseteq> A" and "sorted_wrt (\<lambda>a b. cmp a b \<le> 0) xs"
  shows "sorted_wrt (\<lambda>a b. cmp a b \<le> 0) (insert_by cmp x xs)"
  using assms(4,5)
proof (induction xs)
  case Nil
  show ?case by simp
next
  case (Cons y ys)
  from Cons.prems have y: "y \<in> A" and ys: "set ys \<subseteq> A"
    and yle: "\<forall>z\<in>set ys. cmp y z \<le> 0" and sys: "sorted_wrt (\<lambda>a b. cmp a b \<le> 0) ys"
    by simp_all
  show ?case
  proof (cases "cmp x y \<le> 0")
    case True
    have "\<forall>z\<in>set ys. cmp x z \<le> 0"
    proof
      fix z assume z: "z \<in> set ys"
      with ys have "z \<in> A" by blast
      from tr [OF \<open>x \<in> A\<close> y this True] yle z show "cmp x z \<le> 0" by blast
    qed
    with True Cons.prems show ?thesis by simp
  next
    case False
    with tot [OF \<open>x \<in> A\<close> y] have "cmp y x \<le> 0" by blast
    with False yle Cons.IH [OF ys sys] show ?thesis
      by (simp add: set_insert_by)
  qed
qed

lemma sorted_sort_js:
  assumes tot: "\<And>a b. a \<in> A \<Longrightarrow> b \<in> A \<Longrightarrow> cmp a b \<le> 0 \<or> cmp b a \<le> 0"
    and tr: "\<And>a b c. a \<in> A \<Longrightarrow> b \<in> A \<Longrightarrow> c \<in> A \<Longrightarrow> cmp a b \<le> 0 \<Longrightarrow> cmp b c \<le> 0
               \<Longrightarrow> cmp a c \<le> 0"
    and "set xs \<subseteq> A"
  shows "sorted_wrt (\<lambda>a b. cmp a b \<le> 0) (sort_js cmp xs)"
  using assms(3)
proof (induction xs)
  case Nil
  show ?case by (simp add: sort_js_def)
next
  case (Cons x xs)
  then have "x \<in> A" and s: "set (sort_js cmp xs) \<subseteq> A"
    and "sorted_wrt (\<lambda>a b. cmp a b \<le> 0) (sort_js cmp xs)"
    by (simp_all add: set_sort_js)
  from sorted_insert_by [of A cmp, OF tot tr this]
  show ?case by (simp add: sort_js_def)
qed

lemma sorted_wrt_unique:
  assumes "mset xs = mset ys"
    and "sorted_wrt le xs" and "sorted_wrt le ys"
    and anti: "\<And>a b. a \<in> set xs \<Longrightarrow> b \<in> set xs \<Longrightarrow> le a b \<Longrightarrow> le b a \<Longrightarrow> a = b"
  shows "xs = ys"
  using assms
proof (induction xs arbitrary: ys)
  case Nil
  then show ?case by simp
next
  case (Cons x xs)
  from Cons.prems(1) obtain y ys' where ys: "ys = y # ys'"
    by (cases ys) auto
  from Cons.prems(1) have sets: "set (x # xs) = set ys"
    by (rule mset_eq_setD)
  have "x = y"
  proof (rule ccontr)
    assume ne: "x \<noteq> y"
    from sets ys ne have "x \<in> set ys'" by auto
    with Cons.prems(3) ys have 1: "le y x" by simp
    from sets ys ne have yx: "y \<in> set xs" by auto
    with Cons.prems(2) have 2: "le x y" by simp
    from Cons.prems(4) [of x y] yx 1 2 have "x = y" by simp
    with ne show False by contradiction
  qed
  with Cons.prems(1) ys have m: "mset xs = mset ys'" by simp
  have "xs = ys'"
  proof (rule Cons.IH [OF m])
    from Cons.prems(2) show "sorted_wrt le xs" by simp
    from Cons.prems(3) ys show "sorted_wrt le ys'" by simp
    fix a b assume "a \<in> set xs" "b \<in> set xs" "le a b" "le b a"
    with Cons.prems(4) [of a b] show "a = b" by simp
  qed
  with \<open>x = y\<close> ys show ?case by simp
qed

lemma filter_insert_by_other:
  "\<not> P x \<Longrightarrow> filter P (insert_by cmp x ys) = filter P ys"
  by (induction ys) simp_all

lemma filter_insert_by_first:
  "P x \<Longrightarrow> \<forall>y\<in>set ys. P y \<longrightarrow> cmp x y \<le> 0 \<Longrightarrow>
   filter P (insert_by cmp x ys) = x # filter P ys"
  by (induction ys) auto

lemma sort_js_stable:
  assumes tr: "\<And>a b c. a \<in> A \<Longrightarrow> b \<in> A \<Longrightarrow> c \<in> A \<Longrightarrow> cmp a b \<le> 0 \<Longrightarrow> cmp b c \<le> 0
               \<Longrightarrow> cmp a c \<le> 0"
    and "e \<in> A" and "set xs \<subseteq> A"
  shows "filter (\<lambda>y. cmp y e \<le> 0 \<and> cmp e y \<le> 0) (sort_js cmp xs)
       = filter (\<lambda>y. cmp y e \<le> 0 \<and> cmp e y \<le> 0) xs"
  using assms(3)
proof (induction xs)
  case Nil
  show ?case by (simp add: sort_js_def)
next
  case (Cons x xs)
  let ?P = "\<lambda>y. cmp y e \<le> 0 \<and> cmp e y \<le> 0"
  from Cons.prems have x: "x \<in> A" and xs: "set xs \<subseteq> A" by simp_all
  have s: "sort_js cmp (x # xs) = insert_by cmp x (sort_js cmp xs)"
    by (simp add: sort_js_def)
  show ?case
  proof (cases "?P x")
    case False
    with Cons.IH [OF xs] show ?thesis
      by (simp add: s filter_insert_by_other)
  next
    case True
    have "\<forall>y\<in>set (sort_js cmp xs). ?P y \<longrightarrow> cmp x y \<le> 0"
    proof (intro ballI impI)
      fix y assume "y \<in> set (sort_js cmp xs)" and y: "?P y"
      with xs have "y \<in> A" by (auto simp: set_sort_js)
      from tr [OF x \<open>e \<in> A\<close> this] True y show "cmp x y \<le> 0" by simp
    qed
    from filter_insert_by_first [of ?P x "sort_js cmp xs" cmp, OF True this] Cons.IH [OF xs] True
    show ?thesis by (simp add: s)
  qed
qed

lemma rule_type_to_rule: "rule_type (to_rule lc d) \<in> rule_types"
  by (simp add: to_rule_def domainTypeToRuleType_def rule_types_def)

lemma rule_compare_total:
  assumes "\<forall>a b. lc a b \<le> 0 \<or> lc b a \<le> 0"
  shows "rule_compare lc a b \<le> 0 \<or> rule_compare lc b a \<le> 0"
proof (cases "rule_type a = rule_type b")
  case True
  with assms [rule_format, of "rule_value a" "rule_value b"] show ?thesis
    by (simp add: rule_compare_def)
next
  case False
  with assms [rule_format, of "rule_type a" "rule_type b"] show ?thesis
    by (simp add: rule_compare_def)
qed

lemma rule_compare_trans:
  assumes tr: "\<forall>a b c. lc a b \<le> 0 \<longrightarrow> lc b c \<le> 0 \<longrightarrow> lc a c \<le> 0"
    and apart: "\<forall>s\<in>rule_types. \<forall>t\<in>rule_types. lc s t \<le> 0 \<and> lc t s \<le> 0 \<longrightarrow> s = t"
    and ta: "rule_type a \<in> rule_types" and tb: "rule_type b \<in> rule_types"
    and ab: "rule_compare lc a b \<le> 0" and bc: "rule_compare lc b c \<le> 0"
  shows "rule_compare lc a c \<le> 0"
proof (cases "rule_type a = rule_type b")
  case ab_same: True
  show ?thesis
  proof (cases "rule_type b = rule_type c")
    case True
    with ab_same ab bc have "lc (rule_value a) (rule_value b) \<le> 0"
      "lc (rule_value b) (rule_value c) \<le> 0"
      by (simp_all add: rule_compare_def)
    with tr have "lc (rule_value a) (rule_value c) \<le> 0" by blast
    with True ab_same show ?thesis by (simp add: rule_compare_def)
  next
    case False
    with ab_same bc show ?thesis by (simp add: rule_compare_def)
  qed
next
  case ab_diff: False
  then have 1: "lc (rule_type a) (rule_type b) \<le> 0"
    using ab by (simp add: rule_compare_def)
  show ?thesis
  proof (cases "rule_type b = rule_type c")
    case True
    with ab_diff 1 show ?thesis by (simp add: rule_compare_def)
  next
    case False
    then have 2: "lc (rule_type b) (rule_type c) \<le> 0"
      using bc by (simp add: rule_compare_def)
    show ?thesis
    proof (cases "rule_type a = rule_type c")
      case True
      with 1 2 have "lc (rule_type a) (rule_type b) \<le> 0 \<and> lc (rule_type b) (rule_type a) \<le> 0"
        by simp
      with apart ta tb have "rule_type a = rule_type b" by blast
      with ab_diff show ?thesis by contradiction
    next
      case False
      from tr 1 2 have "lc (rule_type a) (rule_type c) \<le> 0" by blast
      with False show ?thesis by (simp add: rule_compare_def)
    qed
  qed
qed

lemma tie_keeps_input_order:
  assumes "lc (rule_value a) (rule_value b) = 0" and "rule_type a = rule_type b"
  shows "sort_js (rule_compare lc) [a, b] = [a, b]"
  using assms by (simp add: sort_js_def rule_compare_def)

lemma sample_compare_total: "sample_compare a b \<le> 0 \<or> sample_compare b a \<le> 0"
  by (auto simp: sample_compare_def)

lemma sample_compare_trans:
  "sample_compare a b \<le> 0 \<Longrightarrow> sample_compare b c \<le> 0 \<Longrightarrow> sample_compare a c \<le> 0"
  by (auto simp: sample_compare_def split: if_splits)

lemma sample_compare_refl: "sample_compare a a = 0"
  by (simp add: sample_compare_def)

lemma toLowerCase_rule_types: "s \<in> rule_types \<Longrightarrow> toLowerCase s = s"
  unfolding rule_types_def
  by (elim insertE emptyE; hypsubst; code_simp)

lemma sample_compare_rule_types:
  "\<forall>s\<in>rule_types. \<forall>t\<in>rule_types. sample_compare s t \<le> 0 \<and> sample_compare t s \<le> 0 \<longrightarrow> s = t"
proof (intro ballI impI)
  fix s t assume s: "s \<in> rule_types" and t: "t \<in> rule_types"
    and "sample_compare s t \<le> 0 \<and> sample_compare t s \<le> 0"
  then have "toLowerCase s = toLowerCase t"
    by (auto simp: sample_compare_def split: if_splits)
  with s t show "s = t" by (simp add: toLowerCase_rule_types)
qed

text \<open>
  C3, as amended. Normalizing a permutation of a sequence of decoded domain messages
  yields the same rules with the same multiplicities as normalizing the sequence itself:
  the rules of the messages, none merged, none dropped. The two arrays are the same
  array when, in addition, no two different rules of the sequence compare as equal
  (same type, values equal for the collation), the collation being a total preorder that
  tells the four type names apart. For such a collation the array is sorted for the
  comparator, and rules that compare as equal keep the order they have in the input.
\<close>

theorem normalize_rules_permutation:
  "mset ds' = mset ds \<longrightarrow>
     mset (normalize_rules lc ds') = mset (normalize_rules lc ds)
     \<and> mset (normalize_rules lc ds) = mset (map (to_rule lc) ds)
     \<and> length (normalize_rules lc ds') = length ds
     \<and> ((\<forall>a b. lc a b \<le> 0 \<or> lc b a \<le> 0)
        \<and> (\<forall>a b c. lc a b \<le> 0 \<longrightarrow> lc b c \<le> 0 \<longrightarrow> lc a c \<le> 0)
        \<and> (\<forall>s\<in>rule_types. \<forall>t\<in>rule_types. lc s t \<le> 0 \<and> lc t s \<le> 0 \<longrightarrow> s = t)
        \<longrightarrow>
          sorted_wrt (\<lambda>a b. rule_compare lc a b \<le> 0) (normalize_rules lc ds')
          \<and> (\<forall>e. rule_type e \<in> rule_types \<longrightarrow>
                filter (\<lambda>r. rule_compare lc r e \<le> 0 \<and> rule_compare lc e r \<le> 0)
                  (normalize_rules lc ds')
                = filter (\<lambda>r. rule_compare lc r e \<le> 0 \<and> rule_compare lc e r \<le> 0)
                    (map (to_rule lc) ds'))
          \<and> ((\<forall>a\<in>set (map (to_rule lc) ds). \<forall>b\<in>set (map (to_rule lc) ds).
                 rule_compare lc a b \<le> 0 \<and> rule_compare lc b a \<le> 0 \<longrightarrow> a = b)
              \<longrightarrow> normalize_rules lc ds' = normalize_rules lc ds))"
proof (intro impI conjI allI)
  assume p: "mset ds' = mset ds"
  then have pm: "mset (map (to_rule lc) ds') = mset (map (to_rule lc) ds)"
    by (metis mset_map)
  show m1: "mset (normalize_rules lc ds') = mset (normalize_rules lc ds)"
    by (simp add: normalize_rules_def mset_sort_js p)
  show "mset (normalize_rules lc ds) = mset (map (to_rule lc) ds)"
    by (simp add: normalize_rules_def mset_sort_js)
  from p have "length ds' = length ds" by (rule mset_eq_length)
  moreover have "length (normalize_rules lc ds') = length (map (to_rule lc) ds')"
    by (rule mset_eq_length) (simp add: normalize_rules_def mset_sort_js)
  ultimately show "length (normalize_rules lc ds') = length ds" by simp
  assume h: "(\<forall>a b. lc a b \<le> 0 \<or> lc b a \<le> 0)
        \<and> (\<forall>a b c. lc a b \<le> 0 \<longrightarrow> lc b c \<le> 0 \<longrightarrow> lc a c \<le> 0)
        \<and> (\<forall>s\<in>rule_types. \<forall>t\<in>rule_types. lc s t \<le> 0 \<and> lc t s \<le> 0 \<longrightarrow> s = t)"
  note h1 = h [THEN conjunct1] and h2 = h [THEN conjunct2, THEN conjunct1]
    and h3 = h [THEN conjunct2, THEN conjunct2]
  let ?A = "{r. rule_type r \<in> rule_types}"
  have tot: "\<And>a b. a \<in> ?A \<Longrightarrow> b \<in> ?A \<Longrightarrow> rule_compare lc a b \<le> 0 \<or> rule_compare lc b a \<le> 0"
    by (rule rule_compare_total [OF h1])
  have tr: "\<And>a b c. a \<in> ?A \<Longrightarrow> b \<in> ?A \<Longrightarrow> c \<in> ?A \<Longrightarrow> rule_compare lc a b \<le> 0
      \<Longrightarrow> rule_compare lc b c \<le> 0 \<Longrightarrow> rule_compare lc a c \<le> 0"
  proof -
    fix a b c assume "a \<in> ?A" "b \<in> ?A" "c \<in> ?A"
      and ab: "rule_compare lc a b \<le> 0" and bc: "rule_compare lc b c \<le> 0"
    then have "rule_type a \<in> rule_types" "rule_type b \<in> rule_types" by simp_all
    from rule_compare_trans [OF h2 h3 this ab bc] show "rule_compare lc a c \<le> 0" .
  qed
  have sub: "set (map (to_rule lc) ds) \<subseteq> ?A" "set (map (to_rule lc) ds') \<subseteq> ?A"
    by (auto simp: rule_type_to_rule)
  have s1: "sorted_wrt (\<lambda>a b. rule_compare lc a b \<le> 0) (normalize_rules lc ds)"
    unfolding normalize_rules_def by (rule sorted_sort_js [of ?A, OF tot tr sub(1)])
  show s2: "sorted_wrt (\<lambda>a b. rule_compare lc a b \<le> 0) (normalize_rules lc ds')"
    unfolding normalize_rules_def by (rule sorted_sort_js [of ?A, OF tot tr sub(2)])
  {
    fix e :: rule assume "rule_type e \<in> rule_types"
    then have e: "e \<in> ?A" by simp
    show "filter (\<lambda>r. rule_compare lc r e \<le> 0 \<and> rule_compare lc e r \<le> 0)
            (normalize_rules lc ds')
          = filter (\<lambda>r. rule_compare lc r e \<le> 0 \<and> rule_compare lc e r \<le> 0)
              (map (to_rule lc) ds')"
      unfolding normalize_rules_def by (rule sort_js_stable [of ?A, OF tr e sub(2)])
  }
  assume h4: "\<forall>a\<in>set (map (to_rule lc) ds). \<forall>b\<in>set (map (to_rule lc) ds).
      rule_compare lc a b \<le> 0 \<and> rule_compare lc b a \<le> 0 \<longrightarrow> a = b"
  have set': "set (normalize_rules lc ds') = set (map (to_rule lc) ds)"
    using pm [THEN mset_eq_setD] by (simp add: normalize_rules_def set_sort_js)
  show "normalize_rules lc ds' = normalize_rules lc ds"
  proof (rule sorted_wrt_unique [OF m1 s2 s1])
    fix a b assume "a \<in> set (normalize_rules lc ds')" "b \<in> set (normalize_rules lc ds')"
      and le: "rule_compare lc a b \<le> 0" "rule_compare lc b a \<le> 0"
    then have "a \<in> set (map (to_rule lc) ds)" "b \<in> set (map (to_rule lc) ds)"
      by (simp_all only: set')
    from h4 [rule_format, OF this] le show "a = b" by simp
  qed
qed

lemma to_rule_samples:
  "to_rule sample_compare
     \<lparr>domain_type = Some ''Full'', domain_value = Some ''b.com'', domain_attribute = None\<rparr>
   = \<lparr>rule_type = ''full'', rule_value = ''b.com'', attrs = []\<rparr>"
  "to_rule sample_compare
     \<lparr>domain_type = Some ''Domain'', domain_value = Some ''a.com'', domain_attribute = None\<rparr>
   = \<lparr>rule_type = ''domain'', rule_value = ''a.com'', attrs = []\<rparr>"
  "to_rule sample_compare
     \<lparr>domain_type = Some ''Domain'', domain_value = Some ''a.com'',
      domain_attribute = Some [\<lparr>attr_key = Some ''cn'', attr_typed_value = Bool_value True\<rparr>]\<rparr>
   = \<lparr>rule_type = ''domain'', rule_value = ''a.com'', attrs = [''cn'']\<rparr>"
  by (simp_all add: to_rule_def domainTypeToRuleType_def or_empty_def trim_def is_space_def
      extractAttrs_def extractAttrs_step_def sort_js_def)

lemma sample_compare_types:
  "sample_compare ''full'' ''domain'' = 1" "sample_compare ''domain'' ''full'' = - 1"
  by code_simp+

theorem normalize_rules_permutation_witness:
  "mset [\<lparr>domain_type = Some ''Domain'', domain_value = Some ''a.com'', domain_attribute = None\<rparr>,
         \<lparr>domain_type = Some ''Full'', domain_value = Some ''b.com'', domain_attribute = None\<rparr>]
   = mset [\<lparr>domain_type = Some ''Full'', domain_value = Some ''b.com'', domain_attribute = None\<rparr>,
           \<lparr>domain_type = Some ''Domain'', domain_value = Some ''a.com'', domain_attribute = None\<rparr>]
   \<and> normalize_rules sample_compare
       [\<lparr>domain_type = Some ''Full'', domain_value = Some ''b.com'', domain_attribute = None\<rparr>,
        \<lparr>domain_type = Some ''Domain'', domain_value = Some ''a.com'', domain_attribute = None\<rparr>]
     = [\<lparr>rule_type = ''domain'', rule_value = ''a.com'', attrs = []\<rparr>,
        \<lparr>rule_type = ''full'', rule_value = ''b.com'', attrs = []\<rparr>]
   \<and> normalize_rules sample_compare
       [\<lparr>domain_type = Some ''Domain'', domain_value = Some ''a.com'', domain_attribute = None\<rparr>,
        \<lparr>domain_type = Some ''Full'', domain_value = Some ''b.com'', domain_attribute = None\<rparr>]
     = [\<lparr>rule_type = ''domain'', rule_value = ''a.com'', attrs = []\<rparr>,
        \<lparr>rule_type = ''full'', rule_value = ''b.com'', attrs = []\<rparr>]"
proof -
  let ?f = "\<lparr>domain_type = Some ''Full'', domain_value = Some ''b.com'', domain_attribute = None\<rparr>"
  let ?d = "\<lparr>domain_type = Some ''Domain'', domain_value = Some ''a.com'', domain_attribute = None\<rparr>"
  have p: "mset [?d, ?f] = mset [?f, ?d]" by simp
  have n: "normalize_rules sample_compare [?f, ?d]
      = [\<lparr>rule_type = ''domain'', rule_value = ''a.com'', attrs = []\<rparr>,
         \<lparr>rule_type = ''full'', rule_value = ''b.com'', attrs = []\<rparr>]"
    by (simp add: normalize_rules_def to_rule_samples sort_js_def rule_compare_def
        sample_compare_types)
  have ties: "\<forall>a\<in>set (map (to_rule sample_compare) [?f, ?d]).
      \<forall>b\<in>set (map (to_rule sample_compare) [?f, ?d]).
        rule_compare sample_compare a b \<le> 0 \<and> rule_compare sample_compare b a \<le> 0 \<longrightarrow> a = b"
    by (simp add: to_rule_samples rule_compare_def sample_compare_types)
  have h: "(\<forall>a b. sample_compare a b \<le> 0 \<or> sample_compare b a \<le> 0)
        \<and> (\<forall>a b c. sample_compare a b \<le> 0 \<longrightarrow> sample_compare b c \<le> 0 \<longrightarrow> sample_compare a c \<le> 0)
        \<and> (\<forall>s\<in>rule_types. \<forall>t\<in>rule_types.
              sample_compare s t \<le> 0 \<and> sample_compare t s \<le> 0 \<longrightarrow> s = t)"
  proof (intro conjI allI impI)
    show "\<And>a b. sample_compare a b \<le> 0 \<or> sample_compare b a \<le> 0"
      by (rule sample_compare_total)
    show "\<And>a b c. sample_compare a b \<le> 0 \<Longrightarrow> sample_compare b c \<le> 0 \<Longrightarrow> sample_compare a c \<le> 0"
      by (rule sample_compare_trans)
    show "\<forall>s\<in>rule_types. \<forall>t\<in>rule_types.
              sample_compare s t \<le> 0 \<and> sample_compare t s \<le> 0 \<longrightarrow> s = t"
      by (rule sample_compare_rule_types)
  qed
  from normalize_rules_permutation [of "[?d, ?f]" "[?f, ?d]" sample_compare, THEN mp, OF p,
      THEN conjunct2, THEN conjunct2, THEN conjunct2, THEN mp, OF h,
      THEN conjunct2, THEN conjunct2, THEN mp, OF ties]
  have "normalize_rules sample_compare [?d, ?f] = normalize_rules sample_compare [?f, ?d]" .
  with p n show ?thesis by simp
qed

text \<open>
  C3 as stated fails: two messages with the same type and value, one of them with the
  attribute \<open>cn\<close>, compare as equal, and the stable sort leaves them in the order of
  the input. Only \<open>lc v v = 0\<close> matters here, by \<open>tie_keeps_input_order\<close>.
\<close>

theorem normalize_rules_order_counterexample:
  "mset [\<lparr>domain_type = Some ''Domain'', domain_value = Some ''a.com'', domain_attribute = None\<rparr>,
         \<lparr>domain_type = Some ''Domain'', domain_value = Some ''a.com'',
          domain_attribute = Some [\<lparr>attr_key = Some ''cn'', attr_typed_value = Bool_value True\<rparr>]\<rparr>]
   = mset [\<lparr>domain_type = Some ''Domain'', domain_value = Some ''a.com'',
          domain_attribute = Some [\<lparr>attr_key = Some ''cn'', attr_typed_value = Bool_value True\<rparr>]\<rparr>,
           \<lparr>domain_type = Some ''Domain'', domain_value = Some ''a.com'', domain_attribute = None\<rparr>]
   \<and> normalize_rules sample_compare
       [\<lparr>domain_type = Some ''Domain'', domain_value = Some ''a.com'', domain_attribute = None\<rparr>,
        \<lparr>domain_type = Some ''Domain'', domain_value = Some ''a.com'',
          domain_attribute = Some [\<lparr>attr_key = Some ''cn'', attr_typed_value = Bool_value True\<rparr>]\<rparr>]
     = [\<lparr>rule_type = ''domain'', rule_value = ''a.com'', attrs = []\<rparr>,
        \<lparr>rule_type = ''domain'', rule_value = ''a.com'', attrs = [''cn'']\<rparr>]
   \<and> normalize_rules sample_compare
       [\<lparr>domain_type = Some ''Domain'', domain_value = Some ''a.com'',
          domain_attribute = Some [\<lparr>attr_key = Some ''cn'', attr_typed_value = Bool_value True\<rparr>]\<rparr>,
        \<lparr>domain_type = Some ''Domain'', domain_value = Some ''a.com'', domain_attribute = None\<rparr>]
     = [\<lparr>rule_type = ''domain'', rule_value = ''a.com'', attrs = [''cn'']\<rparr>,
        \<lparr>rule_type = ''domain'', rule_value = ''a.com'', attrs = []\<rparr>]"
proof -
  let ?p = "\<lparr>domain_type = Some ''Domain'', domain_value = Some ''a.com'', domain_attribute = None\<rparr>"
  let ?q = "\<lparr>domain_type = Some ''Domain'', domain_value = Some ''a.com'',
          domain_attribute = Some [\<lparr>attr_key = Some ''cn'', attr_typed_value = Bool_value True\<rparr>]\<rparr>"
  show ?thesis
    by (simp add: normalize_rules_def to_rule_samples tie_keeps_input_order sample_compare_refl)
qed

end
